theory Spec2Isabelle
  imports Complex_Main
begin

section \<open>Galton board simulation: data model\<close>

text \<open>
  The model follows \<^verbatim>\<open>GaltonBoard.py\<close>, class \<^verbatim>\<open>GaltonBoardSimulation\<close>.
  Python integers are \<open>int\<close>. A Python float is modelled by the real number it denotes.
  The coordinate arithmetic (the geometry of \<^verbatim>\<open>precalculate_positions\<close> and the motion
  of a ball in \<^verbatim>\<open>update_animation\<close>) rounds the result of every operation to the
  nearest double, as the program does; the slider values, the admission delay and the
  statistics are computed exactly. Exceptions are values of \<open>error\<close>, returned in
  \<open>Inl\<close>. Rendering (pygame drawing, the matplotlib surface) is not modelled; the
  fields \<^verbatim>\<open>plot_surface\<close> and \<^verbatim>\<open>dragging\<close> belong to it and are left out.
\<close>

datatype error = ZeroDivisionError | IndexError | ValueError

text \<open>An entry of \<^verbatim>\<open>balls_in_flight\<close>:
  \<^verbatim>\<open>[ball_index, current_row, x, y, target_x, target_y]\<close>.\<close>

type_synonym ball = "int \<times> int \<times> real \<times> real \<times> real \<times> real"

record galton =
  n_balls :: int
  n_rows :: int
  probability :: real
  ball_speed :: int
  max_simultaneous_balls :: int
  plot_update_counter :: int
  ball_paths :: "int list list"
  balls_in_flight :: "ball list"
  balls_dropped :: int
  delay_counter :: real
  ball_falling :: bool
  positions :: "int list"
  bins_count :: "int list"
  balls_completed :: int
  observed_mean :: real
  observed_std :: real
  theoretical_mean :: real
  theoretical_std :: real
  simulation_complete :: bool
  paused :: bool
  stopped :: bool
  plot_needs_update :: bool
  peg_positions :: "int \<times> int \<rightharpoonup> int \<times> int"
  bin_positions :: "int \<rightharpoonup> int \<times> int"
  slider_balls :: int
  slider_rows :: int
  slider_prob :: real
  slider_speed :: int
  slider_multi :: int

text \<open>The constants set in \<^verbatim>\<open>__init__\<close>: the board area and its margin, and the
  plot refresh interval.\<close>

definition board_x :: int where "board_x = 300"
definition board_y :: int where "board_y = 100"
definition board_width :: int where "board_width = 600"
definition board_height :: int where "board_height = 480"
definition board_margin :: int where "board_margin = 20"
definition plot_update_interval :: int where "plot_update_interval = 10"

subsection \<open>Python primitives\<close>

text \<open>\<^verbatim>\<open>int(x)\<close> on a float truncates towards zero.\<close>

definition py_int :: "real \<Rightarrow> int" where
  "py_int x = (if 0 \<le> x then \<lfloor>x\<rfloor> else \<lceil>x\<rceil>)"

text \<open>\<^verbatim>\<open>round(x)\<close> rounds to the nearest integer, a tie to the even one.\<close>

definition py_round :: "real \<Rightarrow> int" where
  "py_round x =
     (let f = \<lfloor>x\<rfloor>; d = x - of_int f
      in if d < 1 / 2 then f else if 1 / 2 < d then f + 1
         else if even f then f else f + 1)"

text \<open>
  Double precision. \<open>rnd x\<close> is the double nearest to \<open>x\<close>, a tie going to the even
  significand: with \<open>2 ^ e \<le> \<bar>x\<bar> < 2 ^ (e + 1)\<close> the doubles around \<open>x\<close> are the multiples
  of \<open>2 ^ (e - 52)\<close>. (The exponent range is not bounded: no coordinate of the board
  comes near overflow or the subnormal numbers.) The operators \<^verbatim>\<open>+\<close>, \<^verbatim>\<open>-\<close>,
  \<^verbatim>\<open>*\<close>, \<^verbatim>\<open>/\<close> on floats and \<^verbatim>\<open>math.sqrt\<close> return the exact result rounded.
  An operand that is a Python integer of magnitude below \<open>2 ^ 53\<close> is a double, and
  the integer operations of the program on such operands give the same values.
\<close>

definition rnd :: "real \<Rightarrow> real" where
  "rnd x =
     (if x = 0 then 0
      else
        let e = \<lfloor>log 2 \<bar>x\<bar>\<rfloor>;
            ulp = 2 powr (real_of_int e - 52)
        in real_of_int (py_round (x / ulp)) * ulp)"

definition float_add :: "real \<Rightarrow> real \<Rightarrow> real" where
  "float_add x y = rnd (x + y)"

definition float_sub :: "real \<Rightarrow> real \<Rightarrow> real" where
  "float_sub x y = rnd (x - y)"

definition float_mul :: "real \<Rightarrow> real \<Rightarrow> real" where
  "float_mul x y = rnd (x * y)"

definition float_div :: "real \<Rightarrow> real \<Rightarrow> real" where
  "float_div x y = rnd (x / y)"

definition math_sqrt :: "real \<Rightarrow> real" where
  "math_sqrt x = rnd (sqrt x)"

text \<open>\<^verbatim>\<open>xs[i]\<close>: a negative index counts from the end, an index out of range raises.\<close>

definition py_index :: "'a list \<Rightarrow> int \<Rightarrow> error + 'a" where
  "py_index xs i =
     (if 0 \<le> i \<and> i < int (length xs) then Inr (xs ! nat i)
      else if i < 0 \<and> - int (length xs) \<le> i then Inr (xs ! nat (int (length xs) + i))
      else Inl IndexError)"

text \<open>\<^verbatim>\<open>np.mean\<close> and \<^verbatim>\<open>np.std\<close> (the population standard deviation) of a list of
  integers.\<close>

definition np_mean :: "int list \<Rightarrow> real" where
  "np_mean xs = (\<Sum>x\<leftarrow>xs. real_of_int x) / real (length xs)"

definition np_std :: "int list \<Rightarrow> real" where
  "np_std xs = sqrt ((\<Sum>x\<leftarrow>xs. (real_of_int x - np_mean xs)\<^sup>2) / real (length xs))"

subsection \<open>Histogram array, geometry, theoretical values\<close>

text \<open>\<^verbatim>\<open>update_bins_array_size\<close>: \<^verbatim>\<open>np.zeros\<close> raises on a negative size.\<close>

definition update_bins_array_size :: "galton \<Rightarrow> error + galton" where
  "update_bins_array_size s =
     (let new_size = n_rows s + 1
      in if int (length (bins_count s)) \<noteq> new_size then
           if new_size < 0 then Inl ValueError
           else
             let old_bins = bins_count s;
                 zeros = replicate (nat new_size) (0::int);
                 copy_size = min (length old_bins) (nat new_size)
             in Inr (s\<lparr>bins_count := take copy_size old_bins @ drop copy_size zeros\<rparr>)
         else Inr s)"

text \<open>One peg and one bin of \<^verbatim>\<open>precalculate_positions\<close>; \<open>sx\<close> and \<open>sy\<close> are
  \<^verbatim>\<open>peg_spacing_x\<close> and \<^verbatim>\<open>peg_spacing_y\<close>.\<close>

definition peg_position :: "real \<Rightarrow> real \<Rightarrow> int \<Rightarrow> int \<Rightarrow> int \<times> int" where
  "peg_position sx sy row col =
     (let safe_margin = board_margin;
          usable_width = board_width - 2 * safe_margin;
          row_width = float_mul (of_int row) sx;
          row_start_x = float_add (of_int (board_x + safe_margin))
                          (float_div (float_sub (of_int usable_width) row_width) 2);
          x = float_add row_start_x (float_mul (of_int col) sx);
          y = float_add (float_add (of_int (board_y + safe_margin))
                           (float_mul (of_int row) sy)) 40;
          x = max (of_int (board_x + safe_margin))
                (min x (of_int (board_x + board_width - safe_margin)));
          y = max (of_int (board_y + safe_margin))
                (min y (of_int (board_y + board_height - safe_margin - 80)))
      in (py_int x, py_int y))"

definition bin_position :: "real \<Rightarrow> int \<Rightarrow> int \<Rightarrow> int \<times> int" where
  "bin_position sx rows bin_num =
     (let safe_margin = board_margin;
          usable_width = board_width - 2 * safe_margin;
          bin_y = board_y + board_height - 60;
          bin_row_width = float_mul (of_int rows) sx;
          bin_row_start_x =
            float_add (of_int (board_x + safe_margin))
              (float_div (float_sub (of_int usable_width) bin_row_width) 2);
          x = float_add bin_row_start_x (float_mul (of_int bin_num) sx);
          x = max (of_int (board_x + safe_margin))
                (min x (of_int (board_x + board_width - safe_margin)))
      in (py_int x, bin_y))"

text \<open>\<^verbatim>\<open>range(n)\<close> as a list of integers.\<close>

definition py_range :: "int \<Rightarrow> int list" where
  "py_range n = map int [0..<nat n]"

definition precalculate_positions :: "galton \<Rightarrow> error + galton" where
  "precalculate_positions s0 =
     (case update_bins_array_size s0 of
        Inl e \<Rightarrow> Inl e
      | Inr s \<Rightarrow>
          if n_rows s + 1 = 0 then Inl ZeroDivisionError
          else
            let safe_margin = board_margin;
                usable_width = board_width - 2 * safe_margin;
                usable_height = board_height - 2 * safe_margin - 80;
                peg_spacing_x = float_div (of_int usable_width) (of_int (n_rows s + 1));
                peg_spacing_y = float_div (of_int usable_height) (of_int (n_rows s + 1));
                pegs = fold (\<lambda>row m.
                         fold (\<lambda>col m. m((row, col) \<mapsto>
                                 peg_position peg_spacing_x peg_spacing_y row col))
                           (py_range (row + 1)) m)
                       (py_range (n_rows s)) Map.empty;
                bins = fold (\<lambda>bin_num m. m(bin_num \<mapsto>
                                 bin_position peg_spacing_x (n_rows s) bin_num))
                         (py_range (n_rows s + 1)) Map.empty
            in Inr (s\<lparr>peg_positions := pegs, bin_positions := bins\<rparr>))"

text \<open>\<^verbatim>\<open>calculate_theoretical_values\<close>. (\<^verbatim>\<open>np.sqrt\<close> of a negative number is
  \<^verbatim>\<open>nan\<close>; the model agrees with the program where the radicand is not negative.)\<close>

definition calculate_theoretical_values :: "galton \<Rightarrow> galton" where
  "calculate_theoretical_values s =
     s\<lparr>theoretical_mean := of_int (n_rows s) * probability s,
       theoretical_std := sqrt (of_int (n_rows s) * probability s * (1 - probability s))\<rparr>"

definition get_peg_position :: "galton \<Rightarrow> int \<Rightarrow> int \<Rightarrow> int \<times> int" where
  "get_peg_position s row col =
     (case peg_positions s (row, col) of
        Some p \<Rightarrow> p
      | None \<Rightarrow> (board_x + board_width div 2, board_y + board_margin))"

definition get_bin_position :: "galton \<Rightarrow> int \<Rightarrow> int \<times> int" where
  "get_bin_position s bin_num =
     (if 0 \<le> bin_num \<and> bin_num < int (card (dom (bin_positions s))) then
        (case bin_positions s bin_num of
           Some p \<Rightarrow> p
         | None \<Rightarrow> (board_x + board_width div 2, board_y + board_height - 60))
      else (board_x + board_width div 2, board_y + board_height - 60))"

definition clamp_position :: "real \<times> real \<Rightarrow> real \<times> real" where
  "clamp_position p =
     (let x = fst p; y = snd p;
          safety_margin = board_margin;
          min_x = of_int (board_x + safety_margin);
          max_x = of_int (board_x + board_width - safety_margin);
          min_y = of_int (board_y + 20);
          max_y = of_int (board_y + board_height - 20);
          clamped_x = max min_x (min x max_x);
          clamped_y = max min_y (min y max_y)
      in if clamped_x \<le> of_int (board_x + 10) \<or> of_int (board_x + board_width - 10) \<le> clamped_x \<or>
            clamped_y \<le> of_int (board_y + 10) \<or> of_int (board_y + board_height - 10) \<le> clamped_y
         then (of_int (board_x + board_width div 2), of_int (board_y + board_height div 2))
         else (clamped_x, clamped_y))"

subsection \<open>Path generation\<close>

text \<open>
  The random source is the sequence \<open>u\<close> of the values that successive calls of
  \<^verbatim>\<open>np.random.random()\<close> return; \<open>k\<close> is the number of values already drawn.
  \<open>path_loop\<close> is the inner loop of \<^verbatim>\<open>generate_ball_paths\<close> (one ball),
  \<open>balls_loop\<close> the outer one.
\<close>

fun path_loop :: "nat \<Rightarrow> real \<Rightarrow> (nat \<Rightarrow> real) \<Rightarrow> nat \<Rightarrow> int \<Rightarrow> int list \<Rightarrow> int list \<times> nat" where
  "path_loop 0 p u k position path = (path, k)"
| "path_loop (Suc n) p u k position path =
     (let position = (if u k < p then position + 1 else position)
      in path_loop n p u (Suc k) position (path @ [position]))"

fun balls_loop :: "nat \<Rightarrow> nat \<Rightarrow> real \<Rightarrow> (nat \<Rightarrow> real) \<Rightarrow> nat \<Rightarrow> int list list \<Rightarrow> int list list \<times> nat" where
  "balls_loop 0 rows p u k paths = (paths, k)"
| "balls_loop (Suc b) rows p u k paths =
     (case path_loop rows p u k 0 [] of
        (path, k') \<Rightarrow> balls_loop b rows p u k' (paths @ [path]))"

definition generate_ball_paths :: "(nat \<Rightarrow> real) \<Rightarrow> galton \<Rightarrow> galton" where
  "generate_ball_paths u s =
     s\<lparr>ball_paths := fst (balls_loop (nat (n_balls s)) (nat (n_rows s)) (probability s) u 0 [])\<rparr>"

text \<open>The number of successes among the \<open>r\<close> trials that start at draw \<open>k\<close>.\<close>

definition successes :: "(nat \<Rightarrow> real) \<Rightarrow> real \<Rightarrow> nat \<Rightarrow> nat \<Rightarrow> nat" where
  "successes u p k r = length (filter (\<lambda>j. u (k + j) < p) [0..<r])"

subsection \<open>Admission\<close>

text \<open>The body of the \<^verbatim>\<open>while\<close> loop of \<^verbatim>\<open>start_next_balls\<close>: one ball is
  appended to \<^verbatim>\<open>balls_in_flight\<close>.\<close>

definition admit_ball :: "galton \<Rightarrow> galton" where
  "admit_ball s =
     (let ball_index = balls_dropped s;
          (p, t) =
            (case peg_positions s (0, 0) of
               Some start_pos \<Rightarrow>
                 ((real_of_int (fst start_pos), real_of_int (board_y + 20)),
                  (real_of_int (fst start_pos), real_of_int (snd start_pos)))
             | None \<Rightarrow>
                 ((real_of_int (board_x + board_width div 2), real_of_int (board_y + 20)),
                  (real_of_int (board_x + board_width div 2),
                   real_of_int (board_y + board_margin))));
          (x, y) = clamp_position p;
          (target_x, target_y) = clamp_position t
      in s\<lparr>balls_in_flight := balls_in_flight s @ [(ball_index, 0, x, y, target_x, target_y)],
           balls_dropped := balls_dropped s + 1\<rparr>)"

function start_next_balls :: "galton \<Rightarrow> galton" where
  "start_next_balls s =
     (if int (length (balls_in_flight s)) < max_simultaneous_balls s \<and>
         balls_dropped s < n_balls s
      then start_next_balls (admit_ball s)
      else s)"
  by pat_completeness auto
termination
  by (relation "measure (\<lambda>s. nat (n_balls s - balls_dropped s))")
     (auto simp: admit_ball_def Let_def split: option.splits prod.splits)

declare start_next_balls.simps [simp del]

subsection \<open>Start, stop, pause, reset\<close>

text \<open>\<^verbatim>\<open>start_animation\<close>; \<open>u\<close> is the random sequence the run draws from.\<close>

definition start_animation :: "(nat \<Rightarrow> real) \<Rightarrow> galton \<Rightarrow> error + galton" where
  "start_animation u s0 =
     (case update_bins_array_size s0 of
        Inl e \<Rightarrow> Inl e
      | Inr s1 \<Rightarrow>
          (case precalculate_positions
                  (s1\<lparr>positions := [],
                      bins_count := map (\<lambda>_. 0) (bins_count s1),
                      balls_completed := 0,
                      observed_mean := 0,
                      observed_std := 0,
                      simulation_complete := False,
                      balls_dropped := 0,
                      balls_in_flight := [],
                      ball_falling := True,
                      paused := False,
                      stopped := False,
                      delay_counter := 0,
                      plot_update_counter := 0,
                      plot_needs_update := True\<rparr>) of
             Inl e \<Rightarrow> Inl e
           | Inr s2 \<Rightarrow> Inr (start_next_balls (generate_ball_paths u s2))))"

text \<open>The \<^verbatim>\<open>stop\<close> branch of \<^verbatim>\<open>handle_button_click\<close>.\<close>

definition stop_click :: "galton \<Rightarrow> galton" where
  "stop_click s = s\<lparr>ball_falling := False, stopped := True\<rparr>"

text \<open>The \<^verbatim>\<open>pause\<close> branch of \<^verbatim>\<open>handle_button_click\<close> (and the key \<^verbatim>\<open>p\<close>).\<close>

definition pause_click :: "galton \<Rightarrow> galton" where
  "pause_click s = (if ball_falling s then s\<lparr>paused := \<not> paused s\<rparr> else s)"

definition reset_parameters :: "galton \<Rightarrow> error + galton" where
  "reset_parameters s0 =
     (case update_bins_array_size
             (s0\<lparr>n_balls := 500, n_rows := 12, probability := 1 / 2, ball_speed := 6,
                 max_simultaneous_balls := 8,
                 slider_balls := 500, slider_rows := 12, slider_prob := 1 / 2,
                 slider_speed := 6, slider_multi := 8,
                 ball_falling := False,
                 simulation_complete := False,
                 balls_completed := 0,
                 positions := []\<rparr>) of
        Inl e \<Rightarrow> Inl e
      | Inr s1 \<Rightarrow>
          precalculate_positions
            (calculate_theoretical_values
               (s1\<lparr>bins_count := map (\<lambda>_. 0) (bins_count s1),
                   balls_in_flight := [],
                   paused := False,
                   stopped := False,
                   plot_needs_update := True\<rparr>)))"

subsection \<open>The animation tick\<close>

text \<open>
  The body of the \<^verbatim>\<open>for\<close> loop of \<^verbatim>\<open>update_animation\<close> for the ball at index \<open>i\<close>.
  The result is the new state and whether \<open>i\<close> was appended to
  \<^verbatim>\<open>balls_to_remove\<close>.
\<close>

definition record_outcome :: "int \<Rightarrow> galton \<Rightarrow> galton" where
  \<comment> \<open>the body of \<^verbatim>\<open>if 0 <= final_position < len(self.bins_count)\<close>\<close>
  "record_outcome final_position s0 =
     (let s = s0\<lparr>positions := positions s0 @ [final_position],
                 bins_count := (bins_count s0)
                   [nat final_position := bins_count s0 ! nat final_position + 1],
                 balls_completed := balls_completed s0 + 1\<rparr>;
          s = (if balls_completed s mod 5 = 0
               then s\<lparr>observed_mean := np_mean (positions s),
                      observed_std := (if 1 < length (positions s)
                                       then np_std (positions s) else 0)\<rparr>
               else s);
          s = s\<lparr>plot_update_counter := plot_update_counter s + 1\<rparr>
      in if plot_update_interval \<le> plot_update_counter s
         then s\<lparr>plot_needs_update := True, plot_update_counter := 0\<rparr>
         else s)"

definition final_position_of :: "galton \<Rightarrow> int \<Rightarrow> error + int" where
  \<comment> \<open>\<^verbatim>\<open>self.ball_paths[ball_index][-1]\<close>\<close>
  "final_position_of s ball_index =
     (case py_index (ball_paths s) ball_index of
        Inl e \<Rightarrow> Inl e
      | Inr path \<Rightarrow> py_index path (- 1))"

definition next_target :: "galton \<Rightarrow> int \<Rightarrow> int \<Rightarrow> error + int \<times> int" where
  \<comment> \<open>the target chosen on arrival at a peg, \<open>current_row\<close> already incremented\<close>
  "next_target s ball_index current_row =
     (if current_row < n_rows s then
        (case py_index (ball_paths s) ball_index of
           Inl e \<Rightarrow> Inl e
         | Inr path \<Rightarrow>
             (case py_index path current_row of
                Inl e \<Rightarrow> Inl e
              | Inr target_col \<Rightarrow> Inr (get_peg_position s current_row target_col)))
      else
        (case final_position_of s ball_index of
           Inl e \<Rightarrow> Inl e
         | Inr final_position \<Rightarrow> Inr (get_bin_position s final_position)))"

definition effective_speed :: "galton \<Rightarrow> real" where
  \<comment> \<open>\<^verbatim>\<open>effective_speed = min(self.ball_speed * 2, 30)\<close>\<close>
  "effective_speed s = real_of_int (min (ball_speed s * 2) 30)"

definition distance_sq :: "real \<times> real \<Rightarrow> real \<times> real \<Rightarrow> real" where
  \<comment> \<open>\<^verbatim>\<open>dx * dx + dy * dy\<close> for the vector from \<open>p\<close> to \<open>t\<close>\<close>
  "distance_sq p t =
     (let dx = float_sub (fst t) (fst p);
          dy = float_sub (snd t) (snd p)
      in float_add (float_mul dx dx) (float_mul dy dy))"

definition step_towards :: "real \<Rightarrow> real \<times> real \<Rightarrow> real \<times> real \<Rightarrow> real \<times> real" where
  \<comment> \<open>the \<^verbatim>\<open>else\<close> branch: one step of length \<open>step\<close> towards the target\<close>
  "step_towards step p t =
     (let x = fst p; y = snd p;
          dx = float_sub (fst t) x;
          dy = float_sub (snd t) y
      in if 0 < distance_sq p t then
           let distance = math_sqrt (distance_sq p t)
           in (float_add x (float_div (float_mul step dx) distance),
               float_add y (float_div (float_mul step dy) distance))
         else (x, y))"

definition advance_ball :: "nat \<Rightarrow> ball \<Rightarrow> galton \<Rightarrow> error + galton \<times> bool" where
  "advance_ball i ball_data s =
     (case ball_data of (ball_index, current_row, x0, y0, tx0, ty0) \<Rightarrow>
        let p = clamp_position (x0, y0);
            t = clamp_position (tx0, ty0)
        in if distance_sq p t < effective_speed s * effective_speed s then
             let p = clamp_position t
             in if current_row < n_rows s then
                  let current_row = current_row + 1
                  in (case next_target s ball_index current_row of
                        Inl e \<Rightarrow> Inl e
                      | Inr peg \<Rightarrow>
                          let t = clamp_position (real_of_int (fst peg), real_of_int (snd peg))
                          in Inr (s\<lparr>balls_in_flight := (balls_in_flight s)
                                     [i := (ball_index, current_row, fst p, snd p, fst t, snd t)]\<rparr>,
                                  False))
                else
                  (case final_position_of s ball_index of
                     Inl e \<Rightarrow> Inl e
                   | Inr final_position \<Rightarrow>
                       if 0 \<le> final_position \<and> final_position < int (length (bins_count s))
                       then Inr (record_outcome final_position s, True)
                       else Inr (s, True))
           else
             let new = clamp_position (step_towards (effective_speed s) p t)
             in Inr (s\<lparr>balls_in_flight := (balls_in_flight s)
                        [i := (ball_index, current_row, fst new, snd new, fst t, snd t)]\<rparr>,
                     False))"

text \<open>
  The \<^verbatim>\<open>for\<close> loop itself, over \<^verbatim>\<open>enumerate(self.balls_in_flight)\<close>. The loop
  only ever replaces the entry it is visiting, so the entries still to be visited are
  those of the list as it was when the loop began: \<open>bs\<close>, from index \<open>i\<close> on.
\<close>

fun advance_loop :: "nat \<Rightarrow> ball list \<Rightarrow> galton \<Rightarrow> nat list \<Rightarrow> error + galton \<times> nat list" where
  "advance_loop i [] s balls_to_remove = Inr (s, balls_to_remove)"
| "advance_loop i (ball_data # bs) s balls_to_remove =
     (case advance_ball i ball_data s of
        Inl e \<Rightarrow> Inl e
      | Inr (s', removed) \<Rightarrow>
          advance_loop (Suc i) bs s'
            (if removed then balls_to_remove @ [i] else balls_to_remove))"

text \<open>\<^verbatim>\<open>list.pop(index)\<close> for an index in range, and the removal loop
  \<^verbatim>\<open>for index in reversed(balls_to_remove)\<close>.\<close>

definition pop :: "nat \<Rightarrow> 'a list \<Rightarrow> 'a list" where
  "pop index xs = take index xs @ drop (Suc index) xs"

definition remove_balls :: "nat list \<Rightarrow> ball list \<Rightarrow> ball list" where
  "remove_balls balls_to_remove bs = fold pop (rev balls_to_remove) bs"

text \<open>\<^verbatim>\<open>update_animation\<close> in three parts: the admission countdown, the loop over the
  balls in flight, and the removal of the finished balls with the test for completion.\<close>

definition admission_step :: "galton \<Rightarrow> galton" where
  "admission_step s =
     (if 0 < delay_counter s then s\<lparr>delay_counter := delay_counter s - 1\<rparr>
      else (start_next_balls s)
             \<lparr>delay_counter := max 1 (30 - real_of_int (ball_speed s) * (3 / 10))\<rparr>)"

definition finish_tick :: "galton \<Rightarrow> nat list \<Rightarrow> galton" where
  "finish_tick s2 balls_to_remove =
     (let s3 = s2\<lparr>balls_in_flight := remove_balls balls_to_remove (balls_in_flight s2)\<rparr>
      in if n_balls s3 \<le> balls_dropped s3 \<and> length (balls_in_flight s3) = 0
         then s3\<lparr>ball_falling := False, simulation_complete := True, plot_needs_update := True\<rparr>
         else s3)"

definition update_animation :: "galton \<Rightarrow> error + galton" where
  "update_animation s0 =
     (if \<not> ball_falling s0 \<or> paused s0 \<or> stopped s0 then Inr s0
      else
        let s1 = admission_step s0
        in (case advance_loop 0 (balls_in_flight s1) s1 [] of
              Inl e \<Rightarrow> Inl e
            | Inr (s2, balls_to_remove) \<Rightarrow> Inr (finish_tick s2 balls_to_remove)))"

text \<open>\<open>n\<close> successive frames of the main loop with no input event.\<close>

fun ticks :: "nat \<Rightarrow> galton \<Rightarrow> error + galton" where
  "ticks 0 s = Inr s"
| "ticks (Suc n) s = (case update_animation s of Inl e \<Rightarrow> Inl e | Inr s' \<Rightarrow> ticks n s')"

datatype input = Tick | Pause

text \<open>What can happen while a run is active and stays so: a frame, or the pause key.
  (Slider input is refused during a run; stop and reset end it.)\<close>

fun run_inputs :: "input list \<Rightarrow> galton \<Rightarrow> error + galton" where
  "run_inputs [] s = Inr s"
| "run_inputs (Tick # ins) s =
     (case update_animation s of Inl e \<Rightarrow> Inl e | Inr s' \<Rightarrow> run_inputs ins s')"
| "run_inputs (Pause # ins) s = run_inputs ins (pause_click s)"

text \<open>A run: \<^verbatim>\<open>start_animation\<close>, then the inputs.\<close>

definition run :: "(nat \<Rightarrow> real) \<Rightarrow> galton \<Rightarrow> input list \<Rightarrow> error + galton" where
  "run u s0 ins = (case start_animation u s0 of Inl e \<Rightarrow> Inl e | Inr s1 \<Rightarrow> run_inputs ins s1)"

subsection \<open>Sliders and buttons\<close>

text \<open>
  The slider table of \<^verbatim>\<open>__init__\<close>, in insertion order: name, \<open>x\<close>, \<open>y\<close>, width,
  height. The ranges are: balls 100..1000 in steps of 50, rows 5..18, prob 0.1..0.9,
  speed 1..100, multi 1..25.
\<close>

definition sliders :: "(string \<times> int \<times> int \<times> int \<times> int) list" where
  "sliders =
     [(''balls'', 40, 120, 200, 20),
      (''rows'', 40, 190, 200, 20),
      (''prob'', 40, 260, 200, 20),
      (''speed'', 40, 330, 200, 20),
      (''multi'', 40, 400, 200, 20)]"

text \<open>The body of the hit test of \<^verbatim>\<open>handle_slider_input\<close> for the slider \<open>name\<close>;
  \<open>ratio\<close> is the position of the mouse along the track.\<close>

definition slider_edit :: "string \<Rightarrow> real \<Rightarrow> galton \<Rightarrow> error + galton" where
  "slider_edit name ratio s =
     (if name = ''balls'' then
        let new_value = 100 + ratio * (1000 - 100);
            new_value = py_int (new_value / 50) * 50;
            v = max 100 (min 1000 new_value)
        in Inr (calculate_theoretical_values (s\<lparr>slider_balls := v, n_balls := v\<rparr>))
      else if name = ''rows'' then
        let new_value = 5 + ratio * (18 - 5);
            new_value = py_round new_value;
            v = max 5 (min 18 new_value)
        in (case update_bins_array_size (s\<lparr>slider_rows := v, n_rows := v\<rparr>) of
              Inl e \<Rightarrow> Inl e
            | Inr s1 \<Rightarrow>
                (case precalculate_positions s1 of
                   Inl e \<Rightarrow> Inl e
                 | Inr s2 \<Rightarrow> Inr (calculate_theoretical_values s2)))
      else if name = ''speed'' then
        let new_value = 1 + ratio * (100 - 1);
            new_value = py_round new_value;
            v = max 1 (min 100 new_value)
        in Inr (calculate_theoretical_values (s\<lparr>slider_speed := v, ball_speed := v\<rparr>))
      else if name = ''multi'' then
        let new_value = 1 + ratio * (25 - 1);
            new_value = py_round new_value;
            v = max 1 (min 25 new_value)
        in Inr (calculate_theoretical_values
                  (s\<lparr>slider_multi := v, max_simultaneous_balls := v\<rparr>))
      else if name = ''prob'' then
        let new_value = 1 / 10 + ratio * (9 / 10 - 1 / 10);
            v = max (1 / 10) (min (9 / 10) (real_of_int (py_round (new_value * 100)) / 100))
        in Inr (calculate_theoretical_values (s\<lparr>slider_prob := v, probability := v\<rparr>))
      else Inr (calculate_theoretical_values s))"

fun slider_loop ::
  "(string \<times> int \<times> int \<times> int \<times> int) list \<Rightarrow> int \<times> int \<Rightarrow> galton \<Rightarrow> error + galton \<times> string option"
where
  "slider_loop [] mouse_pos s = Inr (s, None)"
| "slider_loop ((name, x, y, width, height) # rest) (mx, my) s =
     (if x \<le> mx \<and> mx \<le> x + width \<and> y - 15 \<le> my \<and> my \<le> y + height + 15 then
        let ratio = max 0 (min 1 (real_of_int (mx - x) / real_of_int width))
        in (case slider_edit name ratio s of
              Inl e \<Rightarrow> Inl e
            | Inr s' \<Rightarrow> Inr (s', Some name))
      else slider_loop rest (mx, my) s)"

definition handle_slider_input :: "int \<times> int \<Rightarrow> galton \<Rightarrow> error + galton \<times> string option" where
  "handle_slider_input mouse_pos s =
     (if ball_falling s \<and> \<not> stopped s then Inr (s, None)
      else slider_loop sliders mouse_pos s)"

text \<open>Successive slider events at the given mouse positions, with no other input in
  between.\<close>

fun slider_inputs :: "(int \<times> int) list \<Rightarrow> galton \<Rightarrow> error + galton" where
  "slider_inputs [] s = Inr s"
| "slider_inputs (mouse_pos # rest) s =
     (case handle_slider_input mouse_pos s of
        Inl e \<Rightarrow> Inl e
      | Inr (s', name) \<Rightarrow> slider_inputs rest s')"

text \<open>The button table: name, \<open>x\<close>, \<open>y\<close>, width, height.\<close>

definition buttons :: "(string \<times> int \<times> int \<times> int \<times> int) list" where
  "buttons =
     [(''run'', 40, 490, 110, 40),
      (''pause'', 40, 540, 110, 40),
      (''reset'', 160, 490, 110, 40),
      (''stop'', 160, 540, 110, 40)]"

definition button_action :: "(nat \<Rightarrow> real) \<Rightarrow> string \<Rightarrow> galton \<Rightarrow> error + galton" where
  "button_action u name s =
     (if name = ''run'' \<and> \<not> ball_falling s then start_animation u s
      else if name = ''pause'' \<and> ball_falling s then Inr (s\<lparr>paused := \<not> paused s\<rparr>)
      else if name = ''stop'' then Inr (stop_click s)
      else if name = ''reset'' then reset_parameters s
      else Inr s)"

fun button_loop ::
  "(string \<times> int \<times> int \<times> int \<times> int) list \<Rightarrow> (nat \<Rightarrow> real) \<Rightarrow> int \<times> int \<Rightarrow> galton \<Rightarrow>
     error + galton \<times> string option"
where
  "button_loop [] u mouse_pos s = Inr (s, None)"
| "button_loop ((name, x, y, width, height) # rest) u (mx, my) s =
     (if x \<le> mx \<and> mx \<le> x + width \<and> y \<le> my \<and> my \<le> y + height then
        (case button_action u name s of
           Inl e \<Rightarrow> Inl e
         | Inr s' \<Rightarrow> Inr (s', Some name))
      else button_loop rest u (mx, my) s)"

definition handle_button_click ::
  "(nat \<Rightarrow> real) \<Rightarrow> int \<times> int \<Rightarrow> galton \<Rightarrow> error + galton \<times> string option" where
  "handle_button_click u mouse_pos s = button_loop buttons u mouse_pos s"

subsection \<open>The initial state\<close>

text \<open>The fields as \<^verbatim>\<open>__init__\<close> sets them, before its two closing calls.\<close>

definition initial_fields :: galton where
  "initial_fields =
     \<lparr>n_balls = 500, n_rows = 12, probability = 1 / 2, ball_speed = 6,
      max_simultaneous_balls = 8, plot_update_counter = 0, ball_paths = [],
      balls_in_flight = [], balls_dropped = 0, delay_counter = 0, ball_falling = False,
      positions = [], bins_count = replicate 13 0, balls_completed = 0,
      observed_mean = 0, observed_std = 0, theoretical_mean = 0, theoretical_std = 0,
      simulation_complete = False, paused = False, stopped = False,
      plot_needs_update = False, peg_positions = Map.empty, bin_positions = Map.empty,
      slider_balls = 500, slider_rows = 12, slider_prob = 1 / 2, slider_speed = 6,
      slider_multi = 8\<rparr>"

definition init :: "error + galton" where
  "init = precalculate_positions (calculate_theoretical_values initial_fields)"

subsection \<open>Invariants of a run\<close>

text \<open>The configuration, and what stays fixed while a run is active.\<close>

definition same_config :: "galton \<Rightarrow> galton \<Rightarrow> bool" where
  "same_config s s' \<longleftrightarrow>
     n_balls s' = n_balls s \<and> n_rows s' = n_rows s \<and>
     probability s' = probability s \<and> ball_speed s' = ball_speed s \<and>
     max_simultaneous_balls s' = max_simultaneous_balls s"

definition same_run :: "galton \<Rightarrow> galton \<Rightarrow> bool" where
  "same_run s s' \<longleftrightarrow>
     n_balls s' = n_balls s \<and> n_rows s' = n_rows s \<and>
     probability s' = probability s \<and> ball_speed s' = ball_speed s \<and>
     max_simultaneous_balls s' = max_simultaneous_balls s \<and>
     ball_paths s' = ball_paths s \<and>
     length (bins_count s') = length (bins_count s) \<and>
     stopped s' = stopped s"

text \<open>The results and the flags are the same in both states.\<close>

definition same_tally :: "galton \<Rightarrow> galton \<Rightarrow> bool" where
  "same_tally s s' \<longleftrightarrow>
     positions s' = positions s \<and> bins_count s' = bins_count s \<and>
     balls_completed s' = balls_completed s \<and>
     observed_mean s' = observed_mean s \<and> observed_std s' = observed_std s \<and>
     ball_falling s' = ball_falling s \<and> paused s' = paused s \<and>
     simulation_complete s' = simulation_complete s"

text \<open>The paths fit the board: one path per ball, one entry per row, and a last entry
  that is an index of the histogram.\<close>

definition paths_ok :: "galton \<Rightarrow> bool" where
  "paths_ok s \<longleftrightarrow>
     1 \<le> n_rows s \<and>
     length (ball_paths s) = nat (n_balls s) \<and>
     (\<forall>p \<in> set (ball_paths s). length p = nat (n_rows s) \<and> 0 \<le> last p \<and> last p \<le> n_rows s) \<and>
     length (bins_count s) = nat (n_rows s + 1)"

definition ball_ok :: "galton \<Rightarrow> ball \<Rightarrow> bool" where
  "ball_ok s b \<longleftrightarrow> 0 \<le> fst b \<and> fst b < n_balls s \<and> 0 \<le> fst (snd b) \<and> fst (snd b) \<le> n_rows s"

text \<open>The bookkeeping of the results: the histogram and the outcome list both account
  for exactly the completed balls, and the statistics are those of the outcome list
  whenever the completed count is a positive multiple of 5.\<close>

definition tally_ok :: "galton \<Rightarrow> bool" where
  "tally_ok s \<longleftrightarrow>
     sum_list (bins_count s) = balls_completed s \<and>
     int (length (positions s)) = balls_completed s \<and>
     (0 < balls_completed s \<and> balls_completed s mod 5 = 0 \<longrightarrow>
        observed_mean s = np_mean (positions s) \<and> observed_std s = np_std (positions s))"

definition cap_ok :: "galton \<Rightarrow> bool" where
  "cap_ok s \<longleftrightarrow> int (length (balls_in_flight s)) \<le> max 0 (max_simultaneous_balls s)"

definition run_inv :: "galton \<Rightarrow> bool" where
  "run_inv s \<longleftrightarrow>
     paths_ok s \<and> (\<forall>b \<in> set (balls_in_flight s). ball_ok s b) \<and> tally_ok s \<and>
     balls_completed s + int (length (balls_in_flight s)) = balls_dropped s \<and>
     0 \<le> balls_dropped s \<and> (balls_dropped s \<le> n_balls s \<or> balls_dropped s = 0) \<and>
     \<not> stopped s \<and>
     (ball_falling s \<longrightarrow> \<not> simulation_complete s) \<and>
     (\<not> ball_falling s \<longrightarrow>
        simulation_complete s \<and> balls_in_flight s = [] \<and> n_balls s \<le> balls_dropped s)"

text \<open>What admission does to a state \<open>s\<close>, as a relation to the state \<open>t\<close> it yields.\<close>

definition admitted :: "galton \<Rightarrow> galton \<Rightarrow> bool" where
  "admitted s t \<longleftrightarrow>
     same_run s t \<and> same_tally s t \<and>
     balls_dropped t - int (length (balls_in_flight t)) =
       balls_dropped s - int (length (balls_in_flight s)) \<and>
     balls_dropped s \<le> balls_dropped t \<and>
     (cap_ok s \<longrightarrow> cap_ok t) \<and>
     (balls_dropped s \<le> n_balls s \<or> balls_dropped s = 0 \<longrightarrow>
        balls_dropped t \<le> n_balls s \<or> balls_dropped t = 0) \<and>
     (0 \<le> balls_dropped s \<and> 0 \<le> n_rows s \<and> (\<forall>b \<in> set (balls_in_flight s). ball_ok s b) \<longrightarrow>
        (\<forall>b \<in> set (balls_in_flight t). ball_ok s b))"

text \<open>The state \<open>t\<close> that \<^verbatim>\<open>start_animation\<close> builds from \<open>s0\<close> before it
  generates the paths and admits the first balls.\<close>

definition fresh_run :: "galton \<Rightarrow> galton \<Rightarrow> bool" where
  "fresh_run s0 t \<longleftrightarrow>
     same_config s0 t \<and> bins_count t = replicate (nat (n_rows s0 + 1)) 0 \<and>
     positions t = [] \<and> balls_completed t = 0 \<and> observed_mean t = 0 \<and> observed_std t = 0 \<and>
     \<not> simulation_complete t \<and> balls_dropped t = 0 \<and> balls_in_flight t = [] \<and>
     ball_falling t \<and> \<not> paused t \<and> \<not> stopped t"

subsection \<open>Valid configurations\<close>

text \<open>The configurations the specification calls valid, and the configurations the
  sliders can produce.\<close>

definition valid_config :: "galton \<Rightarrow> bool" where
  "valid_config s \<longleftrightarrow>
     1 \<le> n_rows s \<and> 0 \<le> probability s \<and> probability s \<le> 1 \<and>
     1 \<le> n_balls s \<and> 1 \<le> max_simultaneous_balls s"

definition in_slider_ranges :: "galton \<Rightarrow> bool" where
  "in_slider_ranges s \<longleftrightarrow>
     100 \<le> n_balls s \<and> n_balls s \<le> 1000 \<and> n_balls s mod 50 = 0 \<and>
     5 \<le> n_rows s \<and> n_rows s \<le> 18 \<and>
     1 / 10 \<le> probability s \<and> probability s \<le> 9 / 10 \<and>
     1 \<le> ball_speed s \<and> ball_speed s \<le> 100 \<and>
     1 \<le> max_simultaneous_balls s \<and> max_simultaneous_balls s \<le> 25"

subsection \<open>A small configuration\<close>

text \<open>Two balls on three rows at speed 10, one ball at a time; a random sequence that
  alternates between 0 and 1, so a draw succeeds exactly at the even positions.\<close>

definition demo :: galton where
  "demo = initial_fields\<lparr>n_balls := 2, n_rows := 3, ball_speed := 10,
                          max_simultaneous_balls := 1\<rparr>"

definition demo_u :: "nat \<Rightarrow> real" where
  "demo_u k = (if even k then 0 else 1)"

text \<open>The state of that run after its first tick: ball 0 is halfway between its
  starting point and the first peg.\<close>

definition midrun :: galton where
  "midrun =
     \<lparr>n_balls = 2, n_rows = 3, probability = 1 / 2, ball_speed = 10,
      max_simultaneous_balls = 1, plot_update_counter = 0,
      ball_paths = [[1, 1, 2], [0, 1, 1]],
      balls_in_flight = [(0, 0, 600, 140, 600, 160)], balls_dropped = 1,
      delay_counter = 27, ball_falling = True,
      positions = [], bins_count = [0, 0, 0, 0], balls_completed = 0,
      observed_mean = 0, observed_std = 0, theoretical_mean = 0, theoretical_std = 0,
      simulation_complete = False, paused = False, stopped = False,
      plot_needs_update = True,
      peg_positions = [(0, 0) \<mapsto> (600, 160), (1, 0) \<mapsto> (530, 250), (1, 1) \<mapsto> (670, 250),
                       (2, 0) \<mapsto> (460, 340), (2, 1) \<mapsto> (600, 340), (2, 2) \<mapsto> (740, 340)],
      bin_positions = [0 \<mapsto> (390, 520), 1 \<mapsto> (530, 520), 2 \<mapsto> (670, 520),
                       3 \<mapsto> (810, 520)],
      slider_balls = 500, slider_rows = 12, slider_prob = 1 / 2, slider_speed = 6,
      slider_multi = 8\<rparr>"

text \<open>A later state of the same kind of run: ball 0 has been recorded in bin 2, ball 1 is
  in the last row, one step away from bin 1. The tick from there completes the run.\<close>

definition lastball :: galton where
  "lastball =
     midrun\<lparr>balls_in_flight := [(1, 3, 530, 510, 530, 520)], balls_dropped := 2,
            delay_counter := 3, positions := [2], bins_count := [0, 0, 1, 0],
            balls_completed := 1, plot_update_counter := 1\<rparr>"

definition finished :: galton where
  "finished =
     lastball\<lparr>balls_in_flight := [], delay_counter := 2, positions := [2, 1],
              bins_count := [0, 1, 1, 0], balls_completed := 2, plot_update_counter := 2,
              ball_falling := False, simulation_complete := True,
              plot_needs_update := True\<rparr>"

text \<open>
  A run within the slider ranges, one tick before it completes: 100 balls on 6 rows at
  speed 10, one ball at a time. The first 40 balls took the path to bin 6, the other 60
  the path to bin 3; 99 outcomes are recorded and ball 99 is in the last row, one step
  away from bin 3. The peg and bin positions are those of the board of 6 rows. The
  statistics are those of the last refresh, at 95 completed balls.
\<close>

definition lastball100 :: galton where
  "lastball100 =
     \<lparr>n_balls = 100, n_rows = 6, probability = 1 / 2, ball_speed = 10,
      max_simultaneous_balls = 1, plot_update_counter = 9,
      ball_paths = replicate 40 [1, 2, 3, 4, 5, 6] @ replicate 60 [0, 1, 1, 2, 2, 3],
      balls_in_flight = [(99, 6, 600, 510, 600, 520)], balls_dropped = 100,
      delay_counter = 3, ball_falling = True,
      positions = replicate 40 6 @ replicate 59 3,
      bins_count = [0, 0, 0, 59, 0, 0, 40], balls_completed = 99,
      observed_mean = np_mean (replicate 40 6 @ replicate 55 3),
      observed_std = np_std (replicate 40 6 @ replicate 55 3),
      theoretical_mean = 3, theoretical_std = sqrt (3 / 2),
      simulation_complete = False, paused = False, stopped = False,
      plot_needs_update = False,
      peg_positions =
        [(0, 0) \<mapsto> (600, 160),
         (1, 0) \<mapsto> (560, 211), (1, 1) \<mapsto> (640, 211),
         (2, 0) \<mapsto> (520, 262), (2, 1) \<mapsto> (600, 262), (2, 2) \<mapsto> (680, 262),
         (3, 0) \<mapsto> (480, 314), (3, 1) \<mapsto> (560, 314), (3, 2) \<mapsto> (640, 314),
         (3, 3) \<mapsto> (720, 314),
         (4, 0) \<mapsto> (440, 365), (4, 1) \<mapsto> (520, 365), (4, 2) \<mapsto> (600, 365),
         (4, 3) \<mapsto> (680, 365), (4, 4) \<mapsto> (760, 365),
         (5, 0) \<mapsto> (400, 417), (5, 1) \<mapsto> (480, 417), (5, 2) \<mapsto> (560, 417),
         (5, 3) \<mapsto> (640, 417), (5, 4) \<mapsto> (720, 417), (5, 5) \<mapsto> (800, 417)],
      bin_positions =
        [0 \<mapsto> (360, 520), 1 \<mapsto> (440, 520), 2 \<mapsto> (520, 520), 3 \<mapsto> (600, 520),
         4 \<mapsto> (680, 520), 5 \<mapsto> (760, 520), 6 \<mapsto> (840, 520)],
      slider_balls = 100, slider_rows = 6, slider_prob = 1 / 2, slider_speed = 10,
      slider_multi = 1\<rparr>"

definition finished100 :: galton where
  "finished100 =
     lastball100\<lparr>balls_in_flight := [], delay_counter := 2,
                 positions := replicate 40 6 @ replicate 59 3 @ [3],
                 bins_count := [0, 0, 0, 60, 0, 0, 40], balls_completed := 100,
                 observed_mean := np_mean (replicate 40 6 @ replicate 59 3 @ [3]),
                 observed_std := np_std (replicate 40 6 @ replicate 59 3 @ [3]),
                 plot_update_counter := 0,
                 ball_falling := False, simulation_complete := True,
                 plot_needs_update := True\<rparr>"

section \<open>Properties\<close>

subsection \<open>Path generation\<close>

lemma successes_Suc_front:
  "successes u p k (Suc m) = (if u k < p then 1 else 0) + successes u p (Suc k) m"
proof -
  have "[0..<Suc m] = 0 # map Suc [0..<m]"
    by (simp add: upt_conv_Cons map_Suc_upt del: upt_Suc)
  then show ?thesis
    by (simp add: successes_def filter_map comp_def del: upt_Suc)
qed

lemma successes_0 [simp]: "successes u p k 0 = 0"
  by (simp add: successes_def)

lemma successes_le: "successes u p k r \<le> r"
  unfolding successes_def by (rule order_trans [OF length_filter_le]) simp

lemma successes_mono: "r \<le> r' \<Longrightarrow> successes u p k r \<le> successes u p k r'"
proof -
  assume "r \<le> r'"
  then have "[0..<r'] = [0..<r] @ [r..<r']"
    by (metis le_add_diff_inverse upt_add_eq_append zero_le)
  then show ?thesis by (simp add: successes_def)
qed

lemma path_loop_eq:
  "path_loop n p u k pos path =
     (path @ map (\<lambda>r. pos + int (successes u p k (Suc r))) [0..<n], k + n)"
proof (induction n arbitrary: k pos path)
  case 0
  show ?case by simp
next
  case (Suc n)
  have upt: "[0..<Suc n] = 0 # map Suc [0..<n]"
    by (simp add: upt_conv_Cons map_Suc_upt del: upt_Suc)
  show ?case
    by (simp add: Suc.IH Let_def upt successes_Suc_front [of u p k] comp_def del: upt_Suc)
qed

lemma balls_loop_eq:
  "balls_loop b rows p u k paths =
     (paths @ map (\<lambda>i. map (\<lambda>r. int (successes u p (k + i * rows) (Suc r))) [0..<rows]) [0..<b],
      k + b * rows)"
proof (induction b arbitrary: k paths)
  case 0
  show ?case by simp
next
  case (Suc b)
  have upt: "[0..<Suc b] = 0 # map Suc [0..<b]"
    by (simp add: upt_conv_Cons map_Suc_upt del: upt_Suc)
  show ?case
    by (simp add: Suc.IH path_loop_eq upt comp_def add.assoc del: upt_Suc)
qed

lemma ball_paths_generate:
  "ball_paths (generate_ball_paths u s) =
     map (\<lambda>i. map (\<lambda>r. int (successes u (probability s) (i * nat (n_rows s)) (Suc r)))
                 [0..<nat (n_rows s)]) [0..<nat (n_balls s)]"
  by (simp add: generate_ball_paths_def balls_loop_eq)

text \<open>
  C1. Every path of \<^verbatim>\<open>generate_ball_paths\<close> has \<open>n_rows\<close> entries. The entry at
  (0-based) index \<open>r\<close>, the position after row \<open>r + 1\<close>, is the number of successful
  draws among the first \<open>r + 1\<close> draws of that ball (ball \<open>b\<close> draws the values
  \<open>u (b * n_rows)\<close>, \<open>u (b * n_rows + 1)\<close>, ...), and it is at most \<open>r + 1\<close>. The
  entries are non-decreasing and the last one lies between 0 and \<open>n_rows\<close>. This holds
  for every probability and every random sequence.
\<close>

theorem generate_ball_paths_path:
  assumes "b < nat (n_balls s)"
  shows "length (ball_paths (generate_ball_paths u s)) = nat (n_balls s) \<and>
         length (ball_paths (generate_ball_paths u s) ! b) = nat (n_rows s) \<and>
         (\<forall>r < nat (n_rows s).
            ball_paths (generate_ball_paths u s) ! b ! r =
              int (successes u (probability s) (b * nat (n_rows s)) (Suc r)) \<and>
            ball_paths (generate_ball_paths u s) ! b ! r \<le> int r + 1) \<and>
         sorted (ball_paths (generate_ball_paths u s) ! b) \<and>
         (1 \<le> n_rows s \<longrightarrow>
            0 \<le> ball_paths (generate_ball_paths u s) ! b ! (nat (n_rows s) - 1) \<and>
            ball_paths (generate_ball_paths u s) ! b ! (nat (n_rows s) - 1) \<le> n_rows s)"
proof -
  let ?p = "ball_paths (generate_ball_paths u s) ! b"
  let ?f = "\<lambda>r. int (successes u (probability s) (b * nat (n_rows s)) (Suc r))"
  have p: "?p = map ?f [0..<nat (n_rows s)]"
    using assms by (simp add: ball_paths_generate)
  have le: "?f r \<le> int r + 1" for r
    using successes_le [of u "probability s" "b * nat (n_rows s)" "Suc r"] by simp
  have len: "length (ball_paths (generate_ball_paths u s)) = nat (n_balls s)"
    by (simp add: ball_paths_generate)
  have srt: "sorted (map ?f [0..<nat (n_rows s)])"
    by (auto simp: sorted_map intro!: sorted_wrt_mono_rel [OF _ sorted_upt] successes_mono)
  have "1 \<le> n_rows s \<Longrightarrow> map ?f [0..<nat (n_rows s)] ! (nat (n_rows s) - 1) \<le> n_rows s"
    using le [of "nat (n_rows s) - 1"] by simp
  then show ?thesis
    unfolding p using len srt le by simp
qed

theorem generate_ball_paths_path_witness:
  "0 < nat (n_balls demo) \<and>
   ball_paths (generate_ball_paths demo_u demo) = [[1, 1, 2], [0, 1, 1]] \<and>
   length (ball_paths (generate_ball_paths demo_u demo) ! 0) = nat (n_rows demo) \<and>
   sorted (ball_paths (generate_ball_paths demo_u demo) ! 0) \<and>
   ball_paths (generate_ball_paths demo_u demo) ! 0 ! (nat (n_rows demo) - 1) \<le> n_rows demo"
proof -
  have h: "0 < nat (n_balls demo)" and r: "1 \<le> n_rows demo"
    by (simp_all add: demo_def initial_fields_def)
  have e: "ball_paths (generate_ball_paths demo_u demo) = [[1, 1, 2], [0, 1, 1]]"
    by code_simp
  show ?thesis
    using generate_ball_paths_path [OF h, of demo_u] h r e by blast
qed

subsection \<open>The histogram array and the geometry\<close>

lemma update_bins_array_size_eq:
  assumes "0 \<le> n_rows s + 1"
  shows "update_bins_array_size s =
           Inr (s\<lparr>bins_count := take (nat (n_rows s + 1)) (bins_count s) @
                    replicate (nat (n_rows s + 1) - length (bins_count s)) 0\<rparr>)"
proof (cases "int (length (bins_count s)) = n_rows s + 1")
  case True
  then have "nat (n_rows s + 1) = length (bins_count s)" by simp
  then show ?thesis using True by (simp add: update_bins_array_size_def)
next
  case False
  then show ?thesis
    using assms by (simp add: update_bins_array_size_def Let_def min_def)
qed

lemma update_bins_array_size_idem:
  assumes "int (length (bins_count s)) = n_rows s + 1"
  shows "update_bins_array_size s = Inr s"
  using assms by (simp add: update_bins_array_size_def)

lemma precalculate_positions_eq:
  assumes "0 \<le> n_rows s"
  shows "\<exists>pegs bins. precalculate_positions s =
           Inr (s\<lparr>bins_count := take (nat (n_rows s + 1)) (bins_count s) @
                    replicate (nat (n_rows s + 1) - length (bins_count s)) 0,
                  peg_positions := pegs, bin_positions := bins\<rparr>)"
  using assms by (simp add: precalculate_positions_def update_bins_array_size_eq Let_def) blast

lemma calculate_theoretical_values_frame [simp]:
  "n_balls (calculate_theoretical_values s) = n_balls s"
  "n_rows (calculate_theoretical_values s) = n_rows s"
  "probability (calculate_theoretical_values s) = probability s"
  "ball_speed (calculate_theoretical_values s) = ball_speed s"
  "max_simultaneous_balls (calculate_theoretical_values s) = max_simultaneous_balls s"
  "bins_count (calculate_theoretical_values s) = bins_count s"
  by (simp_all add: calculate_theoretical_values_def)

lemma slider_edit_rows:
  "\<exists>s'. slider_edit ''rows'' ratio s = Inr s' \<and>
        n_rows s' = max 5 (min 18 (py_round (5 + ratio * 13))) \<and>
        n_balls s' = n_balls s \<and> probability s' = probability s \<and>
        ball_speed s' = ball_speed s \<and> max_simultaneous_balls s' = max_simultaneous_balls s \<and>
        bins_count s' = take (nat (n_rows s' + 1)) (bins_count s) @
                        replicate (nat (n_rows s' + 1) - length (bins_count s)) 0"
proof -
  define v where "v = max 5 (min 18 (py_round (5 + ratio * 13)))"
  define s0 where "s0 = s\<lparr>slider_rows := v, n_rows := v\<rparr>"
  have v: "5 \<le> v" by (simp add: v_def)
  have n0: "n_rows s0 = v" by (simp add: s0_def)
  define s1 where "s1 = s0\<lparr>bins_count := take (nat (v + 1)) (bins_count s0) @
                    replicate (nat (v + 1) - length (bins_count s0)) 0\<rparr>"
  have u: "update_bins_array_size s0 = Inr s1"
    using update_bins_array_size_eq [of s0] v by (simp add: n0 s1_def)
  have len: "int (length (bins_count s1)) = n_rows s1 + 1" and n1: "n_rows s1 = v"
    using v by (auto simp: s1_def n0)
  obtain pegs bins where p: "precalculate_positions s1 =
      Inr (s1\<lparr>peg_positions := pegs, bin_positions := bins\<rparr>)"
    using len v by (simp add: precalculate_positions_def update_bins_array_size_idem Let_def n1)
  have "slider_edit ''rows'' ratio s =
      Inr (calculate_theoretical_values (s1\<lparr>peg_positions := pegs, bin_positions := bins\<rparr>))"
    using u p by (simp add: slider_edit_def Let_def v_def [symmetric] s0_def [symmetric])
  then show ?thesis
    by (simp add: s1_def s0_def v_def)
qed

lemma slider_hit:
  assumes "(name, 40, y, 200, 20) \<in> set sliders" "40 \<le> mx" "mx \<le> 240" "y - 15 \<le> my" "my \<le> y + 35"
  shows "slider_loop sliders (mx, my) s =
           (case slider_edit name (real_of_int (mx - 40) / 200) s of
              Inl e \<Rightarrow> Inl e | Inr s' \<Rightarrow> Inr (s', Some name))"
proof -
  have r: "max 0 (min 1 (real_of_int (mx - 40) / 200)) = real_of_int (mx - 40) / 200"
    using assms(2,3) by (simp add: max_def min_def)
  show ?thesis
    using assms r by (auto simp: sliders_def Let_def)
qed

subsection \<open>One ball, one tick, one run\<close>

lemma py_index_nth:
  "0 \<le> i \<Longrightarrow> i < int (length xs) \<Longrightarrow> py_index xs i = Inr (xs ! nat i)"
  by (simp add: py_index_def)

lemma py_index_last: "xs \<noteq> [] \<Longrightarrow> py_index xs (- 1) = Inr (last xs)"
proof -
  assume ne: "xs \<noteq> []"
  then have "nat (int (length xs) + - 1) = length xs - 1" and "- int (length xs) \<le> - 1"
    by (cases xs, simp_all)+
  then have "py_index xs (- 1) = Inr (xs ! (length xs - 1))"
    by (simp add: py_index_def)
  then show ?thesis using ne by (simp add: last_conv_nth)
qed

lemma final_position_of_ok:
  assumes "paths_ok s" "0 \<le> bi" "bi < n_balls s"
  shows "\<exists>fp. final_position_of s bi = Inr fp \<and> 0 \<le> fp \<and> fp < int (length (bins_count s))"
proof -
  let ?p = "ball_paths s ! nat bi"
  have mem: "?p \<in> set (ball_paths s)"
    using assms by (simp add: paths_ok_def)
  then have len: "length ?p = nat (n_rows s)" and lst: "0 \<le> last ?p" "last ?p \<le> n_rows s"
    using assms(1) by (auto simp: paths_ok_def)
  have ne: "?p \<noteq> []" using len assms(1) by (auto simp: paths_ok_def)
  have "py_index (ball_paths s) bi = Inr ?p"
    using assms by (simp add: py_index_nth paths_ok_def)
  then have "final_position_of s bi = Inr (last ?p)"
    by (simp add: final_position_of_def py_index_last [OF ne])
  moreover have "last ?p < int (length (bins_count s))"
    using lst assms(1) by (simp add: paths_ok_def)
  ultimately show ?thesis using lst by simp
qed

lemma next_target_ok:
  assumes "paths_ok s" "0 \<le> bi" "bi < n_balls s" "0 \<le> cr"
  shows "\<exists>t. next_target s bi cr = Inr t"
proof (cases "cr < n_rows s")
  case True
  let ?p = "ball_paths s ! nat bi"
  have mem: "?p \<in> set (ball_paths s)"
    using assms by (simp add: paths_ok_def)
  then have len: "length ?p = nat (n_rows s)"
    using assms(1) by (auto simp: paths_ok_def)
  have "py_index (ball_paths s) bi = Inr ?p"
    using assms by (simp add: py_index_nth paths_ok_def)
  moreover have "py_index ?p cr = Inr (?p ! nat cr)"
    using True assms(4) len by (simp add: py_index_nth)
  ultimately show ?thesis using True by (simp add: next_target_def)
next
  case False
  obtain fp where "final_position_of s bi = Inr fp"
    using final_position_of_ok [OF assms(1-3)] by blast
  then show ?thesis using False by (simp add: next_target_def)
qed

lemma record_outcome_frame:
  "n_balls (record_outcome fp s) = n_balls s"
  "n_rows (record_outcome fp s) = n_rows s"
  "probability (record_outcome fp s) = probability s"
  "ball_speed (record_outcome fp s) = ball_speed s"
  "max_simultaneous_balls (record_outcome fp s) = max_simultaneous_balls s"
  "ball_paths (record_outcome fp s) = ball_paths s"
  "balls_in_flight (record_outcome fp s) = balls_in_flight s"
  "balls_dropped (record_outcome fp s) = balls_dropped s"
  "ball_falling (record_outcome fp s) = ball_falling s"
  "simulation_complete (record_outcome fp s) = simulation_complete s"
  "paused (record_outcome fp s) = paused s"
  "stopped (record_outcome fp s) = stopped s"
  "peg_positions (record_outcome fp s) = peg_positions s"
  "bin_positions (record_outcome fp s) = bin_positions s"
  by (simp_all add: record_outcome_def Let_def)

lemma record_outcome_counts:
  "positions (record_outcome fp s) = positions s @ [fp]"
  "bins_count (record_outcome fp s) = (bins_count s)[nat fp := bins_count s ! nat fp + 1]"
  "balls_completed (record_outcome fp s) = balls_completed s + 1"
  by (simp_all add: record_outcome_def Let_def)

lemma record_outcome_stats:
  "observed_mean (record_outcome fp s) =
     (if (balls_completed s + 1) mod 5 = 0 then np_mean (positions s @ [fp]) else observed_mean s)"
  "observed_std (record_outcome fp s) =
     (if (balls_completed s + 1) mod 5 = 0
      then (if 1 < length (positions s @ [fp]) then np_std (positions s @ [fp]) else 0)
      else observed_std s)"
  by (simp_all add: record_outcome_def Let_def)

lemma sum_list_incr:
  "i < length xs \<Longrightarrow> sum_list (xs[i := xs ! i + (1::int)]) = sum_list xs + 1"
proof (induction xs arbitrary: i)
  case Nil
  then show ?case by simp
next
  case (Cons x xs)
  then show ?case by (cases i) simp_all
qed

lemma advance_ball_cases:
  assumes "advance_ball i b s = Inr (s', r)"
  shows "(\<not> r \<and> fst (snd b) < n_rows s \<and>
          (\<exists>b'. s' = s\<lparr>balls_in_flight := (balls_in_flight s)[i := b']\<rparr> \<and>
                fst b' = fst b \<and> fst (snd b') = fst (snd b) + 1)) \<or>
         (r \<and> \<not> fst (snd b) < n_rows s \<and>
          (\<exists>fp. final_position_of s (fst b) = Inr fp \<and> 0 \<le> fp \<and>
                fp < int (length (bins_count s)) \<and> s' = record_outcome fp s)) \<or>
         (r \<and> \<not> fst (snd b) < n_rows s \<and> s' = s \<and>
          (\<exists>fp. final_position_of s (fst b) = Inr fp \<and>
                \<not> (0 \<le> fp \<and> fp < int (length (bins_count s))))) \<or>
         (\<not> r \<and>
          (\<exists>b'. s' = s\<lparr>balls_in_flight := (balls_in_flight s)[i := b']\<rparr> \<and>
                fst b' = fst b \<and> fst (snd b') = fst (snd b)))"
proof -
  obtain bi cr x0 y0 tx0 ty0 where b: "b = (bi, cr, x0, y0, tx0, ty0)"
    by (cases b) auto
  define p where "p = clamp_position (x0, y0)"
  define t where "t = clamp_position (tx0, ty0)"
  define es where "es = effective_speed s"
  define near where "near \<longleftrightarrow> distance_sq p t < es * es"
  note defs = advance_ball_def b Let_def p_def [symmetric] t_def [symmetric]
    es_def [symmetric] near_def [symmetric]
  show ?thesis
  proof (cases near)
    case False
    with assms have "\<not> r" and
      "s' = s\<lparr>balls_in_flight := (balls_in_flight s)
              [i := (bi, cr, fst (clamp_position (step_towards es p t)),
                     snd (clamp_position (step_towards es p t)), fst t, snd t)]\<rparr>"
      by (simp_all add: defs)
    then show ?thesis by (auto simp: b simp del: split_paired_Ex)
  next
    case near: True
    show ?thesis
    proof (cases "cr < n_rows s")
      case True
      with near assms obtain peg where "next_target s bi (cr + 1) = Inr peg" and "\<not> r" and
        "s' = s\<lparr>balls_in_flight := (balls_in_flight s)
              [i := (bi, cr + 1, fst (clamp_position t), snd (clamp_position t),
                     fst (clamp_position (real_of_int (fst peg), real_of_int (snd peg))),
                     snd (clamp_position (real_of_int (fst peg), real_of_int (snd peg))))]\<rparr>"
        by (auto simp: defs split: sum.splits)
      with True show ?thesis by (auto simp: b simp del: split_paired_Ex)
    next
      case False
      with near assms obtain fp where fp: "final_position_of s bi = Inr fp" and r: "r" and
        s': "s' = (if 0 \<le> fp \<and> fp < int (length (bins_count s))
                   then record_outcome fp s else s)"
        by (auto simp: defs split: sum.splits if_splits)
      with False show ?thesis by (auto simp: b)
    qed
  qed
qed

lemma same_run_refl [simp]: "same_run s s"
  by (simp add: same_run_def)

lemma same_run_trans: "same_run s t \<Longrightarrow> same_run t v \<Longrightarrow> same_run s v"
  by (simp add: same_run_def)

lemma same_run_flight [simp]: "same_run s (s\<lparr>balls_in_flight := bs\<rparr>)"
  by (simp add: same_run_def)

lemma same_run_record_outcome: "same_run s (record_outcome fp s)"
  by (simp add: same_run_def record_outcome_frame record_outcome_counts)

lemma tally_ok_flight [simp]: "tally_ok (s\<lparr>balls_in_flight := bs\<rparr>) = tally_ok s"
  by (simp add: tally_ok_def)

lemma tally_ok_record_outcome:
  assumes "tally_ok s" "0 \<le> fp" "fp < int (length (bins_count s))"
  shows "tally_ok (record_outcome fp s)"
proof -
  have i: "nat fp < length (bins_count s)" using assms by simp
  have len: "int (length (positions s)) = balls_completed s"
    using assms(1) by (simp add: tally_ok_def)
  have big: "(balls_completed s + 1) mod 5 = 0 \<Longrightarrow> 1 < length (positions s @ [fp])"
    using len by (cases "positions s") auto
  show ?thesis
    using assms(1) big
    by (simp add: tally_ok_def record_outcome_counts record_outcome_stats sum_list_incr [OF i])
qed

lemma advance_ball_frame:
  assumes "advance_ball i b s = Inr (s', r)"
  shows "same_run s s'" "balls_dropped s' = balls_dropped s" "ball_falling s' = ball_falling s"
    "paused s' = paused s" "simulation_complete s' = simulation_complete s"
    "length (balls_in_flight s') = length (balls_in_flight s)"
  using advance_ball_cases [OF assms]
  by (auto simp: same_run_record_outcome record_outcome_frame)

lemma advance_ball_tally:
  assumes "advance_ball i b s = Inr (s', r)" "tally_ok s"
  shows "tally_ok s'"
  using advance_ball_cases [OF assms(1)] assms(2)
  by (auto simp: tally_ok_record_outcome)

lemma paths_ok_same_run: "same_run s s' \<Longrightarrow> paths_ok s \<Longrightarrow> paths_ok s'"
  by (simp add: same_run_def paths_ok_def)

lemma ball_ok_same_run: "same_run s s' \<Longrightarrow> ball_ok s b \<Longrightarrow> ball_ok s' b"
  by (simp add: same_run_def ball_ok_def)

lemma advance_ball_total:
  assumes "paths_ok s" "ball_ok s b"
  shows "\<exists>s' r. advance_ball i b s = Inr (s', r)"
proof -
  obtain bi cr x0 y0 tx0 ty0 where b: "b = (bi, cr, x0, y0, tx0, ty0)"
    by (cases b) auto
  have bi: "0 \<le> bi" "bi < n_balls s" and cr: "0 \<le> cr"
    using assms(2) by (simp_all add: ball_ok_def b)
  obtain fp where "final_position_of s bi = Inr fp"
    using final_position_of_ok [OF assms(1) bi] by blast
  moreover obtain t where "next_target s bi (cr + 1) = Inr t"
    using next_target_ok [OF assms(1) bi, of "cr + 1"] cr by auto
  ultimately show ?thesis
    by (auto simp: advance_ball_def b Let_def)
qed

lemma advance_ball_counts:
  assumes "advance_ball i b s = Inr (s', r)" "paths_ok s" "ball_ok s b"
  shows "balls_completed s' = balls_completed s + (if r then 1 else 0)"
proof -
  have bi: "0 \<le> fst b" "fst b < n_balls s"
    using assms(3) by (simp_all add: ball_ok_def)
  from final_position_of_ok [OF assms(2) bi] advance_ball_cases [OF assms(1)]
  show ?thesis by (auto simp: record_outcome_counts)
qed

lemma advance_ball_flight_ok:
  assumes "advance_ball i b s = Inr (s', r)" "ball_ok s b"
    "\<forall>c \<in> set (balls_in_flight s). ball_ok s c"
  shows "\<forall>c \<in> set (balls_in_flight s'). ball_ok s' c"
proof -
  have upd: "\<forall>c \<in> set ((balls_in_flight s)[i := b']). ball_ok s c" if "ball_ok s b'" for b'
    using that assms(3) set_update_subset_insert [of "balls_in_flight s" i b'] by auto
  have same: "same_run s s'" by (rule advance_ball_frame(1) [OF assms(1)])
  have "\<forall>c \<in> set (balls_in_flight s'). ball_ok s c"
    using advance_ball_cases [OF assms(1)]
  proof (elim disjE conjE exE)
    fix b' assume "fst (snd b) < n_rows s" "fst b' = fst b" "fst (snd b') = fst (snd b) + 1"
      and s': "s' = s\<lparr>balls_in_flight := (balls_in_flight s)[i := b']\<rparr>"
    then have "ball_ok s b'" using assms(2) by (simp add: ball_ok_def)
    then show ?thesis using upd s' by simp
  next
    fix fp assume "s' = record_outcome fp s"
    then show ?thesis using assms(3) by (simp add: record_outcome_frame)
  next
    assume "s' = s"
    then show ?thesis using assms(3) by simp
  next
    fix b' assume "fst b' = fst b" "fst (snd b') = fst (snd b)"
      and s': "s' = s\<lparr>balls_in_flight := (balls_in_flight s)[i := b']\<rparr>"
    then have "ball_ok s b'" using assms(2) by (simp add: ball_ok_def)
    then show ?thesis using upd s' by simp
  qed
  then show ?thesis using ball_ok_same_run [OF same] by blast
qed

lemma length_pop_le: "length (pop i xs) \<le> length xs"
  by (simp add: pop_def)

lemma length_pop: "i < length xs \<Longrightarrow> length (pop i xs) = length xs - 1"
  by (simp add: pop_def)

lemma set_pop: "set (pop i xs) \<subseteq> set xs"
  using set_take_subset [of i xs] set_drop_subset [of "Suc i" xs] by (auto simp: pop_def)

lemma remove_balls_snoc: "remove_balls (rm @ [j]) xs = remove_balls rm (pop j xs)"
  by (simp add: remove_balls_def)

lemma length_remove_balls_le: "length (remove_balls rm xs) \<le> length xs"
proof (induction rm arbitrary: xs rule: rev_induct)
  case Nil
  show ?case by (simp add: remove_balls_def)
next
  case (snoc j rm)
  show ?case
    using snoc.IH [of "pop j xs"] length_pop_le [of j xs] by (simp add: remove_balls_snoc)
qed

lemma set_remove_balls: "set (remove_balls rm xs) \<subseteq> set xs"
proof (induction rm arbitrary: xs rule: rev_induct)
  case Nil
  show ?case by (simp add: remove_balls_def)
next
  case (snoc j rm)
  show ?case
    using snoc.IH [of "pop j xs"] set_pop [of j xs] by (auto simp: remove_balls_snoc)
qed

lemma length_remove_balls:
  "sorted_wrt (<) rm \<Longrightarrow> \<forall>j \<in> set rm. j < length xs \<Longrightarrow>
   length (remove_balls rm xs) = length xs - length rm"
proof (induction rm arbitrary: xs rule: rev_induct)
  case Nil
  show ?case by (simp add: remove_balls_def)
next
  case (snoc j rm)
  have j: "j < length xs" using snoc.prems(2) by simp
  have srt: "sorted_wrt (<) rm" and below: "\<forall>k \<in> set rm. k < j"
    using snoc.prems(1) by (auto simp: sorted_wrt_append)
  have "\<forall>k \<in> set rm. k < length (pop j xs)"
    using below j by (auto simp: length_pop)
  from snoc.IH [OF srt this] show ?case
    using j by (simp add: remove_balls_snoc length_pop)
qed

lemma admit_ball_dropped: "balls_dropped (admit_ball s) = balls_dropped s + 1"
  by (simp add: admit_ball_def Let_def split: option.splits prod.splits)

lemma admit_ball_flight:
  "\<exists>b. balls_in_flight (admit_ball s) = balls_in_flight s @ [b] \<and>
       fst b = balls_dropped s \<and> fst (snd b) = 0"
  by (simp add: admit_ball_def Let_def split: option.splits prod.splits)

lemma admit_ball_same: "same_run s (admit_ball s)" "same_tally s (admit_ball s)"
  by (simp_all add: same_run_def same_tally_def admit_ball_def Let_def
      split: option.splits prod.splits)

lemma same_tally_refl [simp]: "same_tally s s"
  by (simp add: same_tally_def)

lemma same_tally_trans: "same_tally s t \<Longrightarrow> same_tally t v \<Longrightarrow> same_tally s v"
  by (simp add: same_tally_def)

lemma start_next_balls_rule:
  assumes "P s"
    and "\<And>t. P t \<Longrightarrow> int (length (balls_in_flight t)) < max_simultaneous_balls t \<Longrightarrow>
           balls_dropped t < n_balls t \<Longrightarrow> P (admit_ball t)"
  shows "P (start_next_balls s)"
  using assms(1)
proof (induction s rule: start_next_balls.induct)
  case (1 s)
  show ?case
  proof (cases "int (length (balls_in_flight s)) < max_simultaneous_balls s \<and>
                balls_dropped s < n_balls s")
    case True
    then have "P (admit_ball s)" using assms(2) "1.prems" by blast
    then have "P (start_next_balls (admit_ball s))" using "1.IH" True by blast
    then show ?thesis using True by (subst start_next_balls.simps) simp
  next
    case False
    then show ?thesis using "1.prems" by (subst start_next_balls.simps) auto
  qed
qed

lemma start_next_balls_idle:
  "\<not> (int (length (balls_in_flight s)) < max_simultaneous_balls s \<and> balls_dropped s < n_balls s)
   \<Longrightarrow> start_next_balls s = s"
  by (subst start_next_balls.simps) auto

lemma admitted_refl: "admitted s s"
  by (simp add: admitted_def)

lemma admitted_step:
  assumes "admitted s t" "int (length (balls_in_flight t)) < max_simultaneous_balls t"
    "balls_dropped t < n_balls t"
  shows "admitted s (admit_ball t)"
proof -
  obtain b where b: "balls_in_flight (admit_ball t) = balls_in_flight t @ [b]"
      "fst b = balls_dropped t" "fst (snd b) = 0"
    using admit_ball_flight by blast
  note d = admit_ball_dropped [of t]
  have st: "same_run s t" "same_tally s t"
    using assms(1) by (simp_all add: admitted_def)
  have cfg: "n_balls t = n_balls s" "max_simultaneous_balls t = max_simultaneous_balls s"
    "n_rows t = n_rows s"
    using st(1) by (simp_all add: same_run_def)
  have 1: "same_run s (admit_ball t)" "same_tally s (admit_ball t)"
    using st admit_ball_same [of t] by (blast intro: same_run_trans same_tally_trans)+
  have 2: "cap_ok (admit_ball t)"
    using assms(2) admit_ball_same(1) [of t] by (simp add: cap_ok_def b(1) same_run_def max_def)
  have 3: "ball_ok s b" if "0 \<le> balls_dropped s" "0 \<le> n_rows s"
    using that assms(1,3) b(2,3) cfg by (simp add: ball_ok_def admitted_def)
  have 4: "balls_dropped (admit_ball t) - int (length (balls_in_flight (admit_ball t))) =
       balls_dropped s - int (length (balls_in_flight s))"
    using assms(1) by (simp add: admitted_def b(1) d)
  have 5: "balls_dropped s \<le> balls_dropped (admit_ball t)"
    using assms(1) by (simp add: admitted_def d)
  have 6: "balls_dropped (admit_ball t) \<le> n_balls s"
    using assms(3) cfg by (simp add: d)
  have 7: "\<forall>c \<in> set (balls_in_flight (admit_ball t)). ball_ok s c"
    if "0 \<le> balls_dropped s" "0 \<le> n_rows s" "\<forall>b \<in> set (balls_in_flight s). ball_ok s b"
    using that 3 assms(1) by (auto simp: admitted_def b(1))
  show ?thesis
    unfolding admitted_def [of s "admit_ball t"] using 1 2 4 5 6 7 by blast
qed

lemma start_next_balls_admitted: "admitted s (start_next_balls s)"
  by (rule start_next_balls_rule [where P = "admitted s"]) (auto intro: admitted_refl admitted_step)

lemma advance_loop_partial:
  assumes "advance_loop i bs s rm = Inr (s', rm')"
  shows "same_run s s' \<and> balls_dropped s' = balls_dropped s \<and>
         ball_falling s' = ball_falling s \<and> paused s' = paused s \<and>
         simulation_complete s' = simulation_complete s \<and>
         length (balls_in_flight s') = length (balls_in_flight s) \<and>
         (tally_ok s \<longrightarrow> tally_ok s')"
  using assms
proof (induction bs arbitrary: i s rm)
  case Nil
  then show ?case by simp
next
  case (Cons b bs)
  from Cons.prems obtain s1 r where
    b: "advance_ball i b s = Inr (s1, r)" and
    rest: "advance_loop (Suc i) bs s1 (if r then rm @ [i] else rm) = Inr (s', rm')"
    by (auto split: sum.splits)
  note f = advance_ball_frame [OF b] and t = advance_ball_tally [OF b]
  from Cons.IH [OF rest] f t show ?case
    by (auto intro: same_run_trans)
qed

lemma advance_loop_total:
  assumes "paths_ok s" "\<forall>c \<in> set (balls_in_flight s). ball_ok s c" "\<forall>c \<in> set bs. ball_ok s c"
    "sorted_wrt (<) rm" "\<forall>j \<in> set rm. j < i"
  shows "\<exists>s' rm'. advance_loop i bs s rm = Inr (s', rm') \<and>
           (\<forall>c \<in> set (balls_in_flight s'). ball_ok s' c) \<and>
           balls_completed s' - int (length rm') = balls_completed s - int (length rm) \<and>
           sorted_wrt (<) rm' \<and> (\<forall>j \<in> set rm'. j < i + length bs)"
  using assms
proof (induction bs arbitrary: i s rm)
  case Nil
  then show ?case by simp
next
  case (Cons b bs)
  have bok: "ball_ok s b" using Cons.prems(3) by simp
  obtain s1 r where b: "advance_ball i b s = Inr (s1, r)"
    using advance_ball_total [OF Cons.prems(1) bok] by blast
  let ?rm = "if r then rm @ [i] else rm"
  have same: "same_run s s1" by (rule advance_ball_frame(1) [OF b])
  have 1: "paths_ok s1" by (rule paths_ok_same_run [OF same Cons.prems(1)])
  have 2: "\<forall>c \<in> set (balls_in_flight s1). ball_ok s1 c"
    by (rule advance_ball_flight_ok [OF b bok Cons.prems(2)])
  have 3: "\<forall>c \<in> set bs. ball_ok s1 c"
    using Cons.prems(3) ball_ok_same_run [OF same] by simp
  have 4: "sorted_wrt (<) ?rm"
    using Cons.prems(4,5) by (simp add: sorted_wrt_append)
  have 5: "\<forall>j \<in> set ?rm. j < Suc i"
    using Cons.prems(5) by (auto simp: less_Suc_eq)
  have cnt: "balls_completed s1 - int (length ?rm) = balls_completed s - int (length rm)"
    using advance_ball_counts [OF b Cons.prems(1) bok] by simp
  from Cons.IH [OF 1 2 3 4 5] obtain s' rm' where
    r: "advance_loop (Suc i) bs s1 ?rm = Inr (s', rm')"
      "\<forall>c \<in> set (balls_in_flight s'). ball_ok s' c"
      "balls_completed s' - int (length rm') = balls_completed s1 - int (length ?rm)"
      "sorted_wrt (<) rm'" "\<forall>j \<in> set rm'. j < Suc i + length bs"
    by blast
  have "advance_loop i (b # bs) s rm = Inr (s', rm')"
    using b r(1) by simp
  then show ?case using r(2-5) cnt by auto
qed

lemma length_le_of_sorted:
  assumes "sorted_wrt (<) rm" "\<forall>j \<in> set rm. j < n"
  shows "length rm \<le> (n::nat)"
proof -
  have "distinct rm" using assms(1) by (simp add: strict_sorted_iff)
  then have "length rm = card (set rm)" by (simp add: distinct_card)
  also have "\<dots> \<le> card {..<n}"
    using assms(2) by (intro card_mono) auto
  finally show ?thesis by simp
qed

lemma update_animation_running:
  assumes "ball_falling s" "\<not> paused s" "\<not> stopped s"
  shows "update_animation s =
           (case advance_loop 0 (balls_in_flight (admission_step s)) (admission_step s) [] of
              Inl e \<Rightarrow> Inl e
            | Inr (s2, rm) \<Rightarrow> Inr (finish_tick s2 rm))"
  using assms by (simp add: update_animation_def Let_def)

lemma delay_counter_irrelevant [simp]:
  "same_run s (t\<lparr>delay_counter := d\<rparr>) = same_run s t"
  "same_tally s (t\<lparr>delay_counter := d\<rparr>) = same_tally s t"
  "cap_ok (t\<lparr>delay_counter := d\<rparr>) = cap_ok t"
  by (simp_all add: same_run_def same_tally_def cap_ok_def)

lemma admitted_delay: "admitted s t \<Longrightarrow> admitted s (t\<lparr>delay_counter := d\<rparr>)"
  unfolding admitted_def by simp

lemma admitted_admission_step: "admitted s (admission_step s)"
proof (cases "0 < delay_counter s")
  case True
  have "admitted s (s\<lparr>delay_counter := delay_counter s - 1\<rparr>)"
    by (rule admitted_delay [OF admitted_refl])
  then show ?thesis using True by (simp add: admission_step_def)
next
  case False
  have "admitted s ((start_next_balls s)
      \<lparr>delay_counter := max 1 (30 - real_of_int (ball_speed s) * (3 / 10))\<rparr>)"
    by (rule admitted_delay [OF start_next_balls_admitted])
  then show ?thesis using False by (simp add: admission_step_def)
qed

lemma tally_ok_same_tally: "same_tally s t \<Longrightarrow> tally_ok s \<Longrightarrow> tally_ok t"
  by (simp add: same_tally_def tally_ok_def)

lemma finish_tick_facts:
  "same_run s2 (finish_tick s2 rm)"
  "tally_ok (finish_tick s2 rm) = tally_ok s2"
  "balls_in_flight (finish_tick s2 rm) = remove_balls rm (balls_in_flight s2)"
  "balls_dropped (finish_tick s2 rm) = balls_dropped s2"
  "balls_completed (finish_tick s2 rm) = balls_completed s2"
  "paused (finish_tick s2 rm) = paused s2"
  by (simp_all add: finish_tick_def Let_def same_run_def tally_ok_def)

lemma finish_tick_phase:
  "ball_falling (finish_tick s2 rm) \<longleftrightarrow>
     ball_falling s2 \<and>
     \<not> (n_balls s2 \<le> balls_dropped s2 \<and> remove_balls rm (balls_in_flight s2) = [])"
  "simulation_complete (finish_tick s2 rm) \<longleftrightarrow>
     simulation_complete s2 \<or>
     (n_balls s2 \<le> balls_dropped s2 \<and> remove_balls rm (balls_in_flight s2) = [])"
  by (auto simp: finish_tick_def Let_def)

lemma admittedD:
  assumes "admitted s t"
  shows "same_run s t" "same_tally s t"
    "balls_dropped t - int (length (balls_in_flight t)) =
       balls_dropped s - int (length (balls_in_flight s))"
    "balls_dropped s \<le> balls_dropped t"
    "cap_ok s \<Longrightarrow> cap_ok t"
    "balls_dropped s \<le> n_balls s \<or> balls_dropped s = 0 \<Longrightarrow>
       balls_dropped t \<le> n_balls s \<or> balls_dropped t = 0"
    "0 \<le> balls_dropped s \<Longrightarrow> 0 \<le> n_rows s \<Longrightarrow>
       \<forall>b \<in> set (balls_in_flight s). ball_ok s b \<Longrightarrow>
       \<forall>b \<in> set (balls_in_flight t). ball_ok s b"
  using assms unfolding admitted_def by blast+

lemma update_animation_cases:
  assumes "update_animation s = Inr s'"
  shows "s' = s \<or>
         (ball_falling s \<and> \<not> paused s \<and> \<not> stopped s \<and>
          (\<exists>s2 rm. advance_loop 0 (balls_in_flight (admission_step s)) (admission_step s) [] =
                      Inr (s2, rm) \<and> s' = finish_tick s2 rm))"
proof (cases "ball_falling s \<and> \<not> paused s \<and> \<not> stopped s")
  case False
  then have "s' = s" using assms by (auto simp: update_animation_def)
  then show ?thesis by simp
next
  case True
  show ?thesis
  proof (cases "advance_loop 0 (balls_in_flight (admission_step s)) (admission_step s) []")
    case (Inl e)
    then show ?thesis using assms True by (simp add: update_animation_running)
  next
    case (Inr p)
    obtain s2 rm where p: "p = (s2, rm)" by (cases p)
    have "s' = finish_tick s2 rm"
      using assms True Inr by (simp add: update_animation_running p)
    then show ?thesis using True Inr p by blast
  qed
qed

lemma update_animation_partial:
  assumes "update_animation s = Inr s'"
  shows "same_run s s' \<and> paused s' = paused s \<and> (tally_ok s \<longrightarrow> tally_ok s') \<and>
         (cap_ok s \<longrightarrow> cap_ok s')"
  using update_animation_cases [OF assms]
proof (elim disjE conjE exE)
  assume "s' = s"
  then show ?thesis by simp
next
  fix s2 rm
  let ?s1 = "admission_step s"
  assume loop: "advance_loop 0 (balls_in_flight ?s1) ?s1 [] = Inr (s2, rm)"
    and s': "s' = finish_tick s2 rm"
  note a = admittedD [OF admitted_admission_step [of s]]
  note l = advance_loop_partial [OF loop]
  have l1: "same_run ?s1 s2" and l2: "paused s2 = paused ?s1"
    and l3: "length (balls_in_flight s2) = length (balls_in_flight ?s1)"
    and l4: "tally_ok ?s1 \<Longrightarrow> tally_ok s2"
    using l by blast+
  have run: "same_run s s'"
    unfolding s' by (rule same_run_trans [OF same_run_trans [OF a(1) l1] finish_tick_facts(1)])
  have msb: "max_simultaneous_balls s' = max_simultaneous_balls s"
    using run by (simp add: same_run_def)
  have msb1: "max_simultaneous_balls ?s1 = max_simultaneous_balls s"
    using a(1) by (simp add: same_run_def)
  have len: "length (balls_in_flight s') \<le> length (balls_in_flight ?s1)"
    using l3 length_remove_balls_le [of rm "balls_in_flight s2"]
    by (simp add: s' finish_tick_facts(3))
  have cap: "cap_ok s'" if "cap_ok s"
    using a(5) [OF that] len msb msb1 unfolding cap_ok_def by linarith
  have tal: "tally_ok s'" if "tally_ok s"
    using l4 [OF tally_ok_same_tally [OF a(2) that]] by (simp add: s' finish_tick_facts(2))
  have "paused ?s1 = paused s" using a(2) by (simp add: same_tally_def)
  then have "paused s' = paused s"
    using l2 by (simp add: s' finish_tick_facts(6))
  then show ?thesis using run cap tal by blast
qed

lemma run_invD:
  assumes "run_inv s"
  shows "paths_ok s" "\<forall>b \<in> set (balls_in_flight s). ball_ok s b" "tally_ok s"
    "balls_completed s + int (length (balls_in_flight s)) = balls_dropped s"
    "0 \<le> balls_dropped s" "balls_dropped s \<le> n_balls s \<or> balls_dropped s = 0"
    "\<not> stopped s" "ball_falling s \<Longrightarrow> \<not> simulation_complete s"
    "\<not> ball_falling s \<Longrightarrow>
       simulation_complete s \<and> balls_in_flight s = [] \<and> n_balls s \<le> balls_dropped s"
  using assms unfolding run_inv_def by blast+

lemma run_invI:
  assumes "paths_ok s" "\<forall>b \<in> set (balls_in_flight s). ball_ok s b" "tally_ok s"
    "balls_completed s + int (length (balls_in_flight s)) = balls_dropped s"
    "0 \<le> balls_dropped s" "balls_dropped s \<le> n_balls s \<or> balls_dropped s = 0"
    "\<not> stopped s" "ball_falling s \<Longrightarrow> \<not> simulation_complete s"
    "\<not> ball_falling s \<Longrightarrow>
       simulation_complete s \<and> balls_in_flight s = [] \<and> n_balls s \<le> balls_dropped s"
  shows "run_inv s"
  using assms unfolding run_inv_def by blast

lemma update_animation_total:
  assumes "run_inv s"
  shows "\<exists>s'. update_animation s = Inr s' \<and> run_inv s'"
proof (cases "ball_falling s \<and> \<not> paused s \<and> \<not> stopped s")
  case False
  then have "update_animation s = Inr s" by (auto simp: update_animation_def)
  then show ?thesis using assms by simp
next
  case True
  note inv = run_invD [OF assms]
  let ?s1 = "admission_step s"
  note a = admittedD [OF admitted_admission_step [of s]]
  have rows: "0 \<le> n_rows s" using inv(1) by (simp add: paths_ok_def)
  have p1: "paths_ok ?s1" by (rule paths_ok_same_run [OF a(1) inv(1)])
  have f1: "\<forall>b \<in> set (balls_in_flight ?s1). ball_ok ?s1 b"
    using a(7) [OF inv(5) rows inv(2)] ball_ok_same_run [OF a(1)] by blast
  obtain s2 rm where
    loop: "advance_loop 0 (balls_in_flight ?s1) ?s1 [] = Inr (s2, rm)" and
    f2: "\<forall>c \<in> set (balls_in_flight s2). ball_ok s2 c" and
    c2: "balls_completed s2 - int (length rm) = balls_completed ?s1 - int (length ([]::nat list))" and
    srt: "sorted_wrt (<) rm" and bnd: "\<forall>j \<in> set rm. j < 0 + length (balls_in_flight ?s1)"
    using advance_loop_total [OF p1 f1 f1, of "[]" 0] by auto
  note l = advance_loop_partial [OF loop]
  have l1: "same_run ?s1 s2" and l3: "length (balls_in_flight s2) = length (balls_in_flight ?s1)"
    and l4: "tally_ok ?s1 \<Longrightarrow> tally_ok s2" and l5: "balls_dropped s2 = balls_dropped ?s1"
    and l6: "ball_falling s2 = ball_falling ?s1"
    and l7: "simulation_complete s2 = simulation_complete ?s1"
    using l by blast+
  define s' where "s' = finish_tick s2 rm"
  have ua: "update_animation s = Inr s'"
    using True loop by (simp add: update_animation_running s'_def)
  have same2: "same_run s2 s'" unfolding s'_def by (rule finish_tick_facts(1))
  have same: "same_run s s'"
    by (rule same_run_trans [OF same_run_trans [OF a(1) l1] same2])
  have cfg: "n_balls s' = n_balls s" "stopped s' = stopped s" "n_balls s2 = n_balls s"
    using same same_run_trans [OF a(1) l1] by (simp_all add: same_run_def)
  have st: "balls_completed ?s1 = balls_completed s" "ball_falling ?s1 = ball_falling s"
    "simulation_complete ?s1 = simulation_complete s"
    using a(2) by (simp_all add: same_tally_def)
  have 1: "paths_ok s'" by (rule paths_ok_same_run [OF same inv(1)])
  have 2: "\<forall>b \<in> set (balls_in_flight s'). ball_ok s' b"
    using f2 set_remove_balls [of rm "balls_in_flight s2"] ball_ok_same_run [OF same2]
    by (auto simp: s'_def finish_tick_facts(3))
  have 3: "tally_ok s'"
    using l4 [OF tally_ok_same_tally [OF a(2) inv(3)]] by (simp add: s'_def finish_tick_facts(2))
  have rmlen: "length rm \<le> length (balls_in_flight ?s1)"
    using length_le_of_sorted [OF srt] bnd by simp
  have len': "length (balls_in_flight s') = length (balls_in_flight ?s1) - length rm"
    using length_remove_balls [OF srt, of "balls_in_flight s2"] bnd l3
    by (simp add: s'_def finish_tick_facts(3))
  have d': "balls_dropped s' = balls_dropped ?s1"
    by (simp add: s'_def finish_tick_facts(4) l5)
  have c': "balls_completed s' = balls_completed s + int (length rm)"
    using c2 st(1) by (simp add: s'_def finish_tick_facts(5))
  have 4: "balls_completed s' + int (length (balls_in_flight s')) = balls_dropped s'"
    using a(3) inv(4) rmlen by (simp add: len' d' c')
  have 5: "0 \<le> balls_dropped s'" using a(4) inv(5) by (simp add: d')
  have 6: "balls_dropped s' \<le> n_balls s' \<or> balls_dropped s' = 0"
    using a(6) [OF inv(6)] by (simp add: d' cfg)
  have 7: "\<not> stopped s'" using inv(7) by (simp add: cfg)
  have bf: "ball_falling s2" "\<not> simulation_complete s2"
    using True inv(8) by (simp_all add: l6 l7 st)
  have 8: "ball_falling s' \<Longrightarrow> \<not> simulation_complete s'"
    using bf by (simp add: s'_def finish_tick_phase)
  have 9: "simulation_complete s' \<and> balls_in_flight s' = [] \<and> n_balls s' \<le> balls_dropped s'"
    if "\<not> ball_falling s'"
    using that bf cfg(1) by (simp add: s'_def finish_tick_phase finish_tick_facts cfg(3))
  show ?thesis
    using ua run_invI [OF 1 2 3 4 5 6 7 8 9] by blast
qed

subsection \<open>Evaluation on the small configuration\<close>

lemma sqrt_square_eq: "0 \<le> y \<Longrightarrow> x = y * y \<Longrightarrow> sqrt x = y"
  by simp

lemma sqrt_1600: "sqrt 1600 = 40"
  by (rule sqrt_square_eq) simp_all


text \<open>An integer below \<open>2 ^ 53\<close> in magnitude is a double: rounding leaves it as it is.\<close>

lemma py_round_of_int: "py_round (real_of_int n) = n"
  by (simp add: py_round_def)

lemma rnd_0: "rnd 0 = 0"
  by (simp add: rnd_def)

lemma rnd_of_int:
  assumes "\<bar>n\<bar> < 2 ^ 53"
  shows "rnd (real_of_int n) = real_of_int n"
proof (cases "n = 0")
  case True
  then show ?thesis by (simp add: rnd_0)
next
  case False
  define e where "e = \<lfloor>log 2 \<bar>real_of_int n\<bar>\<rfloor>"
  have a: "1 \<le> \<bar>real_of_int n\<bar>" using False by linarith
  have "real_of_int \<bar>n\<bar> < real_of_int (2 ^ 53)"
    using assms by (simp only: of_int_less_iff)
  then have "\<bar>real_of_int n\<bar> < 2 ^ 53" by simp
  then have "\<bar>real_of_int n\<bar> < 2 powr 53" by simp
  then have "log 2 \<bar>real_of_int n\<bar> < 53" using a by (simp add: log_less_iff)
  then have e: "e \<le> 52" unfolding e_def by linarith
  define k where "k = nat (52 - e)"
  have ulp: "2 powr (real_of_int e - 52) = 1 / 2 ^ k"
  proof -
    have "real_of_int e - 52 = - real k" using e by (simp add: k_def)
    then have "2 powr (real_of_int e - 52) = 2 powr (- real k)" by simp
    also have "\<dots> = 1 / 2 powr real k" by (simp add: powr_minus field_simps)
    also have "\<dots> = 1 / 2 ^ k" by (simp add: powr_realpow)
    finally show ?thesis .
  qed
  have "real_of_int n / (1 / 2 ^ k) = real_of_int (n * 2 ^ k)" by simp
  then have "py_round (real_of_int n / (1 / 2 ^ k)) = n * 2 ^ k"
    using py_round_of_int by metis
  then show ?thesis
    using False by (simp add: rnd_def Let_def e_def [symmetric] ulp)
qed

lemma rnd_numeral: "numeral n < (2::int) ^ 53 \<Longrightarrow> rnd (numeral n) = numeral n"
  using rnd_of_int [of "numeral n"] by simp

lemma rnd_neg_numeral: "numeral n < (2::int) ^ 53 \<Longrightarrow> rnd (- numeral n) = - numeral n"
  using rnd_of_int [of "- numeral n"] by simp

lemma rnd_1: "rnd 1 = 1"
  using rnd_of_int [of 1] by simp

lemmas float_defs = float_add_def float_sub_def float_mul_def float_div_def math_sqrt_def
  rnd_0 rnd_1 rnd_numeral rnd_neg_numeral

lemma py_int_of_int [simp]: "py_int (real_of_int n) = n"
  by (simp add: py_int_def)

lemma py_int_numeral [simp]: "py_int (numeral n) = numeral n"
  using py_int_of_int [of "numeral n"] by simp

lemmas board_defs = board_x_def board_y_def board_width_def board_height_def board_margin_def

lemma clamp_position_inside:
  "320 \<le> x \<Longrightarrow> x \<le> 880 \<Longrightarrow> 120 \<le> y \<Longrightarrow> y \<le> 560 \<Longrightarrow> clamp_position (x, y) = (x, y)"
  by (simp add: clamp_position_def Let_def board_defs)



lemma two_dvd_Suc:
  "Suc (Suc 0) dvd Suc (Suc n) \<longleftrightarrow> Suc (Suc 0) dvd n"
  "\<not> Suc (Suc 0) dvd Suc 0"
  using even_Suc_Suc_iff [of n] by (simp_all add: numeral_2_eq_2)

lemmas eval_defs = run_def start_animation_def precalculate_positions_def
  update_bins_array_size_def demo_def initial_fields_def Let_def py_range_def
  peg_position_def bin_position_def board_defs eval_nat_numeral two_dvd_Suc
  generate_ball_paths_def demo_u_def update_animation_def admit_ball_def advance_ball_def
  step_towards_def remove_balls_def start_next_balls.simps admission_step_def finish_tick_def
  effective_speed_def distance_sq_def clamp_position_inside float_defs

lemma demo_first_tick: "run demo_u demo [Tick] = Inr midrun"
  by (simp add: eval_defs midrun_def sqrt_1600)

subsection \<open>The advance of one ball\<close>




subsection \<open>Stop and pause\<close>

lemma update_animation_idle:
  "\<not> ball_falling s \<or> paused s \<or> stopped s \<Longrightarrow> update_animation s = Inr s"
  by (simp add: update_animation_def)

lemma ticks_idle:
  "\<not> ball_falling s \<or> paused s \<or> stopped s \<Longrightarrow> ticks n s = Inr s"
  by (induction n) (simp_all add: update_animation_idle)

lemma button_stop:
  assumes "160 \<le> mx" "mx \<le> 270" "540 \<le> my" "my \<le> 580"
  shows "handle_button_click u (mx, my) s = Inr (stop_click s, Some ''stop'')"
  using assms by (simp add: handle_button_click_def buttons_def button_action_def)

text \<open>
  C5. A click on the stop button yields \<open>stop_click\<close>. In the state it leaves, any
  number of ticks changes nothing at all, so no ball completes and no position,
  histogram, outcome list or count changes. The stop itself leaves the balls in flight,
  the outcome list, the histogram, the completed count and the statistics as they
  were: the balls in flight are abandoned, not completed.
\<close>

theorem stop_cancels:
  "(160 \<le> mx \<and> mx \<le> 270 \<and> 540 \<le> my \<and> my \<le> 580 \<longrightarrow>
      handle_button_click u (mx, my) s = Inr (stop_click s, Some ''stop'')) \<and>
   ticks n (stop_click s) = Inr (stop_click s) \<and>
   balls_in_flight (stop_click s) = balls_in_flight s \<and>
   positions (stop_click s) = positions s \<and>
   bins_count (stop_click s) = bins_count s \<and>
   balls_completed (stop_click s) = balls_completed s \<and>
   observed_mean (stop_click s) = observed_mean s \<and>
   observed_std (stop_click s) = observed_std s"
proof -
  have "ticks n (stop_click s) = Inr (stop_click s)"
    by (rule ticks_idle) (simp add: stop_click_def)
  then show ?thesis
    by (simp add: button_stop) (simp add: stop_click_def)
qed

theorem stop_cancels_witness:
  "handle_button_click demo_u (200, 560) midrun = Inr (stop_click midrun, Some ''stop'') \<and>
   ticks 3 (stop_click midrun) = Inr (stop_click midrun) \<and>
   balls_in_flight (stop_click midrun) = [(0, 0, 600, 140, 600, 160)] \<and>
   positions (stop_click midrun) = []"
  using stop_cancels [of 200 560 demo_u midrun 3] by (simp add: midrun_def)

text \<open>
  C6. Pausing a running state and ticking any number of times changes nothing at all:
  the balls in flight (row, position and target), the histogram, the outcome list and
  the counts are those at the pause. Resuming gives back exactly the state before the
  pause, so the first tick after the resume is the tick that state would have made.
\<close>

theorem pause_freezes:
  assumes "ball_falling s" "\<not> paused s"
  shows "ticks n (pause_click s) = Inr (pause_click s) \<and>
         balls_in_flight (pause_click s) = balls_in_flight s \<and>
         positions (pause_click s) = positions s \<and>
         bins_count (pause_click s) = bins_count s \<and>
         balls_completed (pause_click s) = balls_completed s \<and>
         balls_dropped (pause_click s) = balls_dropped s \<and>
         pause_click (pause_click s) = s \<and>
         update_animation (pause_click (pause_click s)) = update_animation s"
proof -
  have p: "pause_click s = s\<lparr>paused := True\<rparr>"
    using assms by (simp add: pause_click_def)
  have "ticks n (pause_click s) = Inr (pause_click s)"
    by (rule ticks_idle) (simp add: p)
  moreover have "pause_click (pause_click s) = s"
    using assms by (simp add: pause_click_def)
  ultimately show ?thesis by (simp add: p)
qed

theorem pause_freezes_witness:
  "ball_falling midrun \<and> \<not> paused midrun \<and>
   ticks 3 (pause_click midrun) = Inr (pause_click midrun) \<and>
   balls_in_flight (pause_click midrun) = [(0, 0, 600, 140, 600, 160)] \<and>
   pause_click (pause_click midrun) = midrun"
proof -
  have h: "ball_falling midrun" "\<not> paused midrun"
    by (simp_all add: midrun_def)
  show ?thesis
    using pause_freezes [OF h, of 3] h by (simp add: midrun_def)
qed

subsection \<open>Slider input\<close>

lemma in_slider_ranges_valid: "in_slider_ranges s \<Longrightarrow> valid_config s"
  by (simp add: in_slider_ranges_def valid_config_def)

lemma calculate_theoretical_values_same [simp]:
  "same_config s (calculate_theoretical_values t) = same_config s t"
  "bins_count (calculate_theoretical_values t) = bins_count t"
  "in_slider_ranges (calculate_theoretical_values t) = in_slider_ranges t"
  by (simp_all add: same_config_def in_slider_ranges_def calculate_theoretical_values_def)

lemma slider_edit_balls:
  "slider_edit ''balls'' ratio s =
     Inr (calculate_theoretical_values
            (s\<lparr>slider_balls := max 100 (min 1000 (py_int ((100 + ratio * 900) / 50) * 50)),
               n_balls := max 100 (min 1000 (py_int ((100 + ratio * 900) / 50) * 50))\<rparr>))"
  by (simp add: slider_edit_def Let_def)

lemma slider_edit_speed:
  "slider_edit ''speed'' ratio s =
     Inr (calculate_theoretical_values
            (s\<lparr>slider_speed := max 1 (min 100 (py_round (1 + ratio * 99))),
               ball_speed := max 1 (min 100 (py_round (1 + ratio * 99)))\<rparr>))"
  by (simp add: slider_edit_def Let_def)

lemma slider_edit_multi:
  "slider_edit ''multi'' ratio s =
     Inr (calculate_theoretical_values
            (s\<lparr>slider_multi := max 1 (min 25 (py_round (1 + ratio * 24))),
               max_simultaneous_balls := max 1 (min 25 (py_round (1 + ratio * 24)))\<rparr>))"
  by (simp add: slider_edit_def Let_def)

lemma slider_edit_prob:
  "slider_edit ''prob'' ratio s =
     Inr (calculate_theoretical_values
            (s\<lparr>slider_prob := max (1 / 10) (min (9 / 10)
                   (real_of_int (py_round ((1 / 10 + ratio * (8 / 10)) * 100)) / 100)),
               probability := max (1 / 10) (min (9 / 10)
                   (real_of_int (py_round ((1 / 10 + ratio * (8 / 10)) * 100)) / 100))\<rparr>))"
  by (simp add: slider_edit_def Let_def)

lemma balls_value_mod: "max 100 (min 1000 (k * 50)) mod 50 = (0::int)"
  by (simp add: max_def min_def)

lemma clamp_bounds:
  fixes a b x :: "'a::linorder"
  assumes "a \<le> b"
  shows "a \<le> max a (min b x)" "max a (min b x) \<le> b"
  using assms by (auto simp: max_def min_def)

lemma in_slider_ranges_update:
  "in_slider_ranges (s\<lparr>slider_balls := v, n_balls := v\<rparr>) \<longleftrightarrow>
     in_slider_ranges (s\<lparr>n_balls := v\<rparr>)"
  "in_slider_ranges (s\<lparr>slider_speed := w, ball_speed := w\<rparr>) \<longleftrightarrow>
     in_slider_ranges (s\<lparr>ball_speed := w\<rparr>)"
  "in_slider_ranges (s\<lparr>slider_multi := w, max_simultaneous_balls := w\<rparr>) \<longleftrightarrow>
     in_slider_ranges (s\<lparr>max_simultaneous_balls := w\<rparr>)"
  "in_slider_ranges (s\<lparr>slider_prob := p, probability := p\<rparr>) \<longleftrightarrow>
     in_slider_ranges (s\<lparr>probability := p\<rparr>)"
  by (simp_all add: in_slider_ranges_def)

lemma in_slider_ranges_field:
  "in_slider_ranges s \<Longrightarrow> 100 \<le> v \<Longrightarrow> v \<le> 1000 \<Longrightarrow> v mod 50 = 0 \<Longrightarrow>
     in_slider_ranges (s\<lparr>n_balls := v\<rparr>)"
  "in_slider_ranges s \<Longrightarrow> 1 \<le> w \<Longrightarrow> w \<le> 100 \<Longrightarrow> in_slider_ranges (s\<lparr>ball_speed := w\<rparr>)"
  "in_slider_ranges s \<Longrightarrow> 1 \<le> m \<Longrightarrow> m \<le> 25 \<Longrightarrow>
     in_slider_ranges (s\<lparr>max_simultaneous_balls := m\<rparr>)"
  "in_slider_ranges s \<Longrightarrow> 1 / 10 \<le> p \<Longrightarrow> p \<le> 9 / 10 \<Longrightarrow>
     in_slider_ranges (s\<lparr>probability := p\<rparr>)"
  unfolding in_slider_ranges_def by simp_all

lemma slider_edit_in_range:
  assumes "(name, g) \<in> set sliders"
  shows "\<exists>s'. slider_edit name ratio s = Inr s' \<and> (in_slider_ranges s \<longrightarrow> in_slider_ranges s')"
proof -
  from assms consider "name = ''balls''" | "name = ''rows''" | "name = ''prob''"
    | "name = ''speed''" | "name = ''multi''"
    unfolding sliders_def by auto
  then show ?thesis
  proof cases
    case 1
    define v where "v = max 100 (min 1000 (py_int ((100 + ratio * 900) / 50) * 50))"
    have "100 \<le> v" "v \<le> 1000" "v mod 50 = 0"
      unfolding v_def using clamp_bounds [of 100 1000] balls_value_mod by simp_all
    then have "in_slider_ranges (s\<lparr>n_balls := v\<rparr>)" if "in_slider_ranges s"
      by (rule in_slider_ranges_field(1) [OF that])
    then show ?thesis
      unfolding 1 slider_edit_balls v_def [symmetric]
      by (simp add: in_slider_ranges_update)
  next
    case 2
    obtain s' where s': "slider_edit ''rows'' ratio s = Inr s'"
      "n_rows s' = max 5 (min 18 (py_round (5 + ratio * 13)))"
      "n_balls s' = n_balls s" "probability s' = probability s"
      "ball_speed s' = ball_speed s" "max_simultaneous_balls s' = max_simultaneous_balls s"
      using slider_edit_rows [of ratio s] by blast
    have "5 \<le> n_rows s'" "n_rows s' \<le> 18"
      unfolding s'(2) using clamp_bounds [of 5 18] by simp_all
    then have "in_slider_ranges s'" if "in_slider_ranges s"
      using that s'(3-6) unfolding in_slider_ranges_def by simp
    then show ?thesis using s'(1) 2 by blast
  next
    case 3
    define v where "v = max (1 / 10) (min (9 / 10)
        (real_of_int (py_round ((1 / 10 + ratio * (8 / 10)) * 100)) / 100))"
    have "1 / 10 \<le> v" "v \<le> 9 / 10"
      unfolding v_def using clamp_bounds [of "1 / 10 :: real" "9 / 10"] by simp_all
    then have "in_slider_ranges (s\<lparr>probability := v\<rparr>)" if "in_slider_ranges s"
      by (rule in_slider_ranges_field(4) [OF that])
    then show ?thesis
      unfolding 3 slider_edit_prob v_def [symmetric]
      by (simp add: in_slider_ranges_update)
  next
    case 4
    define v where "v = max 1 (min 100 (py_round (1 + ratio * 99)))"
    have "1 \<le> v" "v \<le> 100"
      unfolding v_def using clamp_bounds [of 1 100] by simp_all
    then have "in_slider_ranges (s\<lparr>ball_speed := v\<rparr>)" if "in_slider_ranges s"
      by (rule in_slider_ranges_field(2) [OF that])
    then show ?thesis
      unfolding 4 slider_edit_speed v_def [symmetric]
      by (simp add: in_slider_ranges_update)
  next
    case 5
    define v where "v = max 1 (min 25 (py_round (1 + ratio * 24)))"
    have "1 \<le> v" "v \<le> 25"
      unfolding v_def using clamp_bounds [of 1 25] by simp_all
    then have "in_slider_ranges (s\<lparr>max_simultaneous_balls := v\<rparr>)" if "in_slider_ranges s"
      by (rule in_slider_ranges_field(3) [OF that])
    then show ?thesis
      unfolding 5 slider_edit_multi v_def [symmetric]
      by (simp add: in_slider_ranges_update)
  qed
qed

lemma slider_loop_in_range:
  assumes "set sl \<subseteq> set sliders"
  shows "\<exists>s' r. slider_loop sl mouse_pos s = Inr (s', r) \<and>
           (in_slider_ranges s \<longrightarrow> in_slider_ranges s')"
  using assms
proof (induction sl)
  case Nil
  then show ?case by (cases mouse_pos) simp
next
  case (Cons e sl)
  obtain name x y w h where e: "e = (name, x, y, w, h)" by (cases e) auto
  obtain mx my where m: "mouse_pos = (mx, my)" by (cases mouse_pos)
  have mem: "(name, x, y, w, h) \<in> set sliders" using Cons.prems e by simp
  show ?case
  proof (cases "x \<le> mx \<and> mx \<le> x + w \<and> y - 15 \<le> my \<and> my \<le> y + h + 15")
    case True
    obtain s' where "slider_edit name (max 0 (min 1 (real_of_int (mx - x) / real_of_int w))) s
        = Inr s'" "in_slider_ranges s \<longrightarrow> in_slider_ranges s'"
      using slider_edit_in_range [OF mem] by blast
    then show ?thesis using True by (simp add: e m Let_def)
  next
    case False
    then have "slider_loop (e # sl) mouse_pos s = slider_loop sl mouse_pos s"
      by (simp only: e m slider_loop.simps if_False)
    then show ?thesis using Cons by simp
  qed
qed

lemma handle_slider_input_in_range:
  "\<exists>s' r. handle_slider_input mouse_pos s = Inr (s', r) \<and>
          (in_slider_ranges s \<longrightarrow> in_slider_ranges s')"
  using slider_loop_in_range [of sliders mouse_pos s]
  by (simp add: handle_slider_input_def)

lemma reset_parameters_ok:
  "\<exists>s'. reset_parameters s = Inr s' \<and> in_slider_ranges s' \<and> bins_count s' = replicate 13 0 \<and>
        \<not> ball_falling s' \<and> balls_in_flight s' = [] \<and> positions s' = [] \<and>
        balls_completed s' = 0"
proof -
  define s0 where "s0 = s\<lparr>n_balls := 500, n_rows := 12, probability := 1 / 2, ball_speed := 6,
                 max_simultaneous_balls := 8,
                 slider_balls := 500, slider_rows := 12, slider_prob := 1 / 2,
                 slider_speed := 6, slider_multi := 8,
                 ball_falling := False,
                 simulation_complete := False,
                 balls_completed := 0,
                 positions := []\<rparr>"
  have n0: "n_rows s0 = 12" by (simp add: s0_def)
  define s1 where "s1 = s0\<lparr>bins_count := take 13 (bins_count s0) @
      replicate (13 - length (bins_count s0)) 0\<rparr>"
  have u: "update_bins_array_size s0 = Inr s1"
    using update_bins_array_size_eq [of s0] by (simp add: n0 s1_def)
  have len1: "length (bins_count s1) = 13" by (simp add: s1_def)
  define s2 where "s2 = calculate_theoretical_values
               (s1\<lparr>bins_count := map (\<lambda>_. 0) (bins_count s1),
                   balls_in_flight := [],
                   paused := False,
                   stopped := False,
                   plot_needs_update := True\<rparr>)"
  have b2: "bins_count s2 = replicate 13 0"
    by (simp add: s2_def len1 map_replicate_const)
  have n2: "n_rows s2 = 12" by (simp add: s2_def s1_def n0)
  obtain pegs bins where p: "precalculate_positions s2 =
      Inr (s2\<lparr>bins_count := take (nat (n_rows s2 + 1)) (bins_count s2) @
                    replicate (nat (n_rows s2 + 1) - length (bins_count s2)) 0,
                  peg_positions := pegs, bin_positions := bins\<rparr>)"
    using precalculate_positions_eq [of s2] n2 by auto
  have r: "reset_parameters s = precalculate_positions s2"
    using u by (simp add: reset_parameters_def s0_def [symmetric] s2_def)
  have "in_slider_ranges s2"
    by (simp add: s2_def s1_def s0_def in_slider_ranges_def)
  moreover have "\<not> ball_falling s2" "balls_in_flight s2 = []" "positions s2 = []"
    "balls_completed s2 = 0"
    by (simp_all add: s2_def s1_def s0_def calculate_theoretical_values_def)
  ultimately show ?thesis
    unfolding r p using b2 n2 by (simp add: in_slider_ranges_def)
qed

lemma slider_hit_edit:
  assumes "(name, 40, y, 200, 20) \<in> set sliders" "40 \<le> mx" "mx \<le> 240" "y - 15 \<le> my" "my \<le> y + 35"
    "\<not> (ball_falling s \<and> \<not> stopped s)"
    "slider_edit name (real_of_int (mx - 40) / 200) s = Inr s'"
  shows "handle_slider_input (mx, my) s = Inr (s', Some name)"
  using slider_hit [OF assms(1-5), of s] assms(6,7)
  by (auto simp: handle_slider_input_def)

lemma py_round_half: "py_round (23 / 2) = 12"
  by (simp add: py_round_def)

text \<open>
  C7. While \<^verbatim>\<open>ball_falling\<close> is true and the run has not been stopped (the run is
  running or paused), \<^verbatim>\<open>handle_slider_input\<close> returns the state unchanged, whatever
  the mouse position. Otherwise a mouse position on the track of a slider sets the
  slider's configuration field to the value read from the track, clamped to the slider's
  range.
\<close>

theorem slider_input_guard:
  "(ball_falling s \<and> \<not> stopped s \<longrightarrow> handle_slider_input mouse_pos s = Inr (s, None)) \<and>
   (\<not> (ball_falling s \<and> \<not> stopped s) \<and> 40 \<le> mx \<and> mx \<le> 240 \<longrightarrow>
      (105 \<le> my \<and> my \<le> 155 \<longrightarrow>
         (\<exists>s'. handle_slider_input (mx, my) s = Inr (s', Some ''balls'') \<and>
               n_balls s' =
                 max 100 (min 1000
                   (py_int ((100 + real_of_int (mx - 40) / 200 * 900) / 50) * 50)))) \<and>
      (175 \<le> my \<and> my \<le> 225 \<longrightarrow>
         (\<exists>s'. handle_slider_input (mx, my) s = Inr (s', Some ''rows'') \<and>
               n_rows s' = max 5 (min 18 (py_round (5 + real_of_int (mx - 40) / 200 * 13))))) \<and>
      (245 \<le> my \<and> my \<le> 295 \<longrightarrow>
         (\<exists>s'. handle_slider_input (mx, my) s = Inr (s', Some ''prob'') \<and>
               probability s' =
                 max (1 / 10) (min (9 / 10)
                   (real_of_int (py_round
                      ((1 / 10 + real_of_int (mx - 40) / 200 * (8 / 10)) * 100)) / 100)))) \<and>
      (315 \<le> my \<and> my \<le> 365 \<longrightarrow>
         (\<exists>s'. handle_slider_input (mx, my) s = Inr (s', Some ''speed'') \<and>
               ball_speed s' =
                 max 1 (min 100 (py_round (1 + real_of_int (mx - 40) / 200 * 99))))) \<and>
      (385 \<le> my \<and> my \<le> 435 \<longrightarrow>
         (\<exists>s'. handle_slider_input (mx, my) s = Inr (s', Some ''multi'') \<and>
               max_simultaneous_balls s' =
                 max 1 (min 25 (py_round (1 + real_of_int (mx - 40) / 200 * 24))))))"
proof -
  let ?r = "real_of_int (mx - 40) / 200"
  have 0: "handle_slider_input mouse_pos s = Inr (s, None)" if "ball_falling s \<and> \<not> stopped s"
    using that by (simp add: handle_slider_input_def)
  have mem: "(''balls'', 40, 120, 200, 20) \<in> set sliders"
    "(''rows'', 40, 190, 200, 20) \<in> set sliders"
    "(''prob'', 40, 260, 200, 20) \<in> set sliders"
    "(''speed'', 40, 330, 200, 20) \<in> set sliders"
    "(''multi'', 40, 400, 200, 20) \<in> set sliders"
    by (simp_all add: sliders_def)
  {
    assume idle: "\<not> (ball_falling s \<and> \<not> stopped s)" and mx: "40 \<le> mx" "mx \<le> 240"
    have 1: "\<exists>s'. handle_slider_input (mx, my) s = Inr (s', Some ''balls'') \<and>
               n_balls s' =
                 max 100 (min 1000 (py_int ((100 + ?r * 900) / 50) * 50))"
      if "105 \<le> my \<and> my \<le> 155"
      using slider_hit_edit [OF mem(1) mx _ _ idle slider_edit_balls] that by simp
    have 2: "\<exists>s'. handle_slider_input (mx, my) s = Inr (s', Some ''rows'') \<and>
               n_rows s' = max 5 (min 18 (py_round (5 + ?r * 13)))"
      if "175 \<le> my \<and> my \<le> 225"
    proof -
      obtain s' where "slider_edit ''rows'' ?r s = Inr s'"
        "n_rows s' = max 5 (min 18 (py_round (5 + ?r * 13)))"
        using slider_edit_rows [of ?r s] by blast
      then show ?thesis
        using slider_hit_edit [OF mem(2) mx _ _ idle] that by simp
    qed
    have 3: "\<exists>s'. handle_slider_input (mx, my) s = Inr (s', Some ''prob'') \<and>
               probability s' =
                 max (1 / 10) (min (9 / 10)
                   (real_of_int (py_round ((1 / 10 + ?r * (8 / 10)) * 100)) / 100))"
      if "245 \<le> my \<and> my \<le> 295"
      using slider_hit_edit [OF mem(3) mx _ _ idle slider_edit_prob] that by simp
    have 4: "\<exists>s'. handle_slider_input (mx, my) s = Inr (s', Some ''speed'') \<and>
               ball_speed s' = max 1 (min 100 (py_round (1 + ?r * 99)))"
      if "315 \<le> my \<and> my \<le> 365"
      using slider_hit_edit [OF mem(4) mx _ _ idle slider_edit_speed] that by simp
    have 5: "\<exists>s'. handle_slider_input (mx, my) s = Inr (s', Some ''multi'') \<and>
               max_simultaneous_balls s' = max 1 (min 25 (py_round (1 + ?r * 24)))"
      if "385 \<le> my \<and> my \<le> 435"
      using slider_hit_edit [OF mem(5) mx _ _ idle slider_edit_multi] that by simp
    note 1 2 3 4 5
  }
  with 0 show ?thesis by blast
qed

theorem slider_input_guard_witness:
  "ball_falling midrun \<and> \<not> stopped midrun \<and>
   handle_slider_input (140, 200) midrun = Inr (midrun, None) \<and>
   \<not> ball_falling demo \<and>
   (\<exists>s'. handle_slider_input (140, 200) demo = Inr (s', Some ''rows'') \<and> n_rows s' = 12)"
proof -
  have m: "ball_falling midrun \<and> \<not> stopped midrun" by (simp add: midrun_def)
  have d: "\<not> ball_falling demo" by (simp add: demo_def initial_fields_def)
  show ?thesis
    using slider_input_guard [of midrun "(140, 200)" 140 200]
      slider_input_guard [of demo "(140, 200)" 140 200] m d
    by (simp add: py_round_half)
qed

subsection \<open>Starting a run, and the inputs of a run\<close>

lemma precalculate_positions_fit:
  assumes "int (length (bins_count s)) = n_rows s + 1" "0 \<le> n_rows s"
  shows "\<exists>pegs bins. precalculate_positions s =
           Inr (s\<lparr>peg_positions := pegs, bin_positions := bins\<rparr>)"
  using assms by (simp add: precalculate_positions_def update_bins_array_size_idem Let_def) blast

lemma update_bins_array_size_rows:
  "update_bins_array_size s = Inr s' \<Longrightarrow> 0 \<le> n_rows s + 1"
  by (auto simp: update_bins_array_size_def Let_def split: if_splits)

lemma update_bins_array_size_fields:
  assumes "update_bins_array_size s = Inr s'"
  shows "n_rows s' = n_rows s" "int (length (bins_count s')) = n_rows s + 1"
proof -
  have r: "0 \<le> n_rows s + 1" by (rule update_bins_array_size_rows [OF assms])
  from assms show "n_rows s' = n_rows s" "int (length (bins_count s')) = n_rows s + 1"
    unfolding update_bins_array_size_eq [OF r] using r by auto
qed

lemma precalculate_positions_rows:
  assumes "precalculate_positions s = Inr s'"
  shows "0 \<le> n_rows s"
proof -
  from assms obtain s1 where u: "update_bins_array_size s = Inr s1" and z: "n_rows s1 + 1 \<noteq> 0"
    by (auto simp: precalculate_positions_def split: sum.splits if_splits)
  from update_bins_array_size_rows [OF u] update_bins_array_size_fields(1) [OF u] z
  show ?thesis by simp
qed

lemma start_animation_ok:
  assumes "0 \<le> n_rows s0"
  shows "\<exists>t. start_animation u s0 = Inr (start_next_balls (generate_ball_paths u t)) \<and>
             fresh_run s0 t"
proof -
  let ?k = "nat (n_rows s0 + 1)"
  define s1 where "s1 = s0\<lparr>bins_count := take ?k (bins_count s0) @
                    replicate (?k - length (bins_count s0)) 0\<rparr>"
  have u1: "update_bins_array_size s0 = Inr s1"
    using update_bins_array_size_eq [of s0] assms by (simp add: s1_def)
  have len1: "length (bins_count s1) = ?k" by (simp add: s1_def)
  define s2 where "s2 = s1\<lparr>positions := [],
                      bins_count := map (\<lambda>_. 0) (bins_count s1),
                      balls_completed := 0,
                      observed_mean := 0,
                      observed_std := 0,
                      simulation_complete := False,
                      balls_dropped := 0,
                      balls_in_flight := [],
                      ball_falling := True,
                      paused := False,
                      stopped := False,
                      delay_counter := 0,
                      plot_update_counter := 0,
                      plot_needs_update := True\<rparr>"
  have b2: "bins_count s2 = replicate ?k 0"
    by (simp add: s2_def len1 map_replicate_const)
  have n2: "n_rows s2 = n_rows s0" by (simp add: s2_def s1_def)
  have "int (length (bins_count s2)) = n_rows s2 + 1"
    using assms by (simp add: b2 n2)
  then obtain pegs bins where p: "precalculate_positions s2 =
      Inr (s2\<lparr>peg_positions := pegs, bin_positions := bins\<rparr>)"
    using precalculate_positions_fit [of s2] assms n2 by auto
  define t where "t = s2\<lparr>peg_positions := pegs, bin_positions := bins\<rparr>"
  have st: "start_animation u s0 = Inr (start_next_balls (generate_ball_paths u t))"
    using u1 p by (simp add: start_animation_def s2_def [symmetric] t_def)
  have "fresh_run s0 t"
    using b2 by (simp add: fresh_run_def t_def) (simp add: s2_def s1_def same_config_def)
  with st show ?thesis by blast
qed

lemma start_animation_rows:
  assumes "start_animation u s0 = Inr s1"
  shows "0 \<le> n_rows s0"
proof -
  from assms obtain sa sb where u: "update_bins_array_size s0 = Inr sa"
    and p: "precalculate_positions (sa\<lparr>positions := [],
                      bins_count := map (\<lambda>_. 0) (bins_count sa),
                      balls_completed := 0,
                      observed_mean := 0,
                      observed_std := 0,
                      simulation_complete := False,
                      balls_dropped := 0,
                      balls_in_flight := [],
                      ball_falling := True,
                      paused := False,
                      stopped := False,
                      delay_counter := 0,
                      plot_update_counter := 0,
                      plot_needs_update := True\<rparr>) = Inr sb"
    by (auto simp: start_animation_def split: sum.splits)
  from precalculate_positions_rows [OF p] update_bins_array_size_fields(1) [OF u]
  show ?thesis by simp
qed


lemma paths_ok_generate:
  assumes "1 \<le> n_rows t" "length (bins_count t) = nat (n_rows t + 1)"
  shows "paths_ok (generate_ball_paths u t)"
proof -
  let ?g = "generate_ball_paths u t"
  let ?n = "nat (n_rows t)"
  have f: "n_rows ?g = n_rows t" "n_balls ?g = n_balls t" "bins_count ?g = bins_count t"
    by (simp_all add: generate_ball_paths_def)
  have n: "0 < ?n" using assms(1) by simp
  have "length p = ?n \<and> 0 \<le> last p \<and> last p \<le> n_rows t" if "p \<in> set (ball_paths ?g)" for p
  proof -
    from that obtain i where p: "p = map (\<lambda>r. int (successes u (probability t) (i * ?n) (Suc r)))
        [0..<?n]"
      by (auto simp: ball_paths_generate)
    have ne: "[0..<?n] \<noteq> []" using n by simp
    have "last p = int (successes u (probability t) (i * ?n) (Suc (?n - 1)))"
      unfolding p using n by (simp add: last_map [OF ne])
    moreover have "successes u (probability t) (i * ?n) (Suc (?n - 1)) \<le> Suc (?n - 1)"
      by (rule successes_le)
    ultimately show ?thesis using n by (simp add: p)
  qed
  then show ?thesis
    using assms by (simp add: paths_ok_def f ball_paths_generate)
qed

lemma fresh_run_generate:
  assumes "fresh_run s0 t"
  shows "fresh_run s0 (generate_ball_paths u t)"
    "ball_paths (generate_ball_paths u t) = ball_paths (generate_ball_paths u s0)"
  using assms
  by (simp_all add: fresh_run_def generate_ball_paths_def same_config_def)

lemma fresh_run_facts:
  assumes "fresh_run s0 g"
  shows "tally_ok g" "cap_ok g" "paths_ok g \<Longrightarrow> run_inv g"
  using assms
  by (simp_all add: fresh_run_def tally_ok_def cap_ok_def run_inv_def sum_list_replicate)

lemma admitted_run_inv:
  assumes "run_inv g" "ball_falling g" "admitted g s"
  shows "run_inv s"
proof -
  note inv = run_invD [OF assms(1)] and a = admittedD [OF assms(3)]
  have rows: "0 \<le> n_rows g" using inv(1) by (simp add: paths_ok_def)
  have cfg: "n_balls s = n_balls g" "stopped s = stopped g"
    using a(1) by (simp_all add: same_run_def)
  have st: "balls_completed s = balls_completed g" "ball_falling s = ball_falling g"
    "simulation_complete s = simulation_complete g"
    using a(2) by (simp_all add: same_tally_def)
  show ?thesis
  proof (rule run_invI)
    show "paths_ok s" by (rule paths_ok_same_run [OF a(1) inv(1)])
    show "\<forall>b \<in> set (balls_in_flight s). ball_ok s b"
      using a(7) [OF inv(5) rows inv(2)] ball_ok_same_run [OF a(1)] by blast
    show "tally_ok s" by (rule tally_ok_same_tally [OF a(2) inv(3)])
    show "balls_completed s + int (length (balls_in_flight s)) = balls_dropped s"
      using a(3) inv(4) by (simp add: st)
    show "0 \<le> balls_dropped s" using a(4) inv(5) by simp
    show "balls_dropped s \<le> n_balls s \<or> balls_dropped s = 0"
      using a(6) [OF inv(6)] by (simp add: cfg)
    show "\<not> stopped s" using inv(7) by (simp add: cfg)
    show "ball_falling s \<Longrightarrow> \<not> simulation_complete s"
      using inv(8) assms(2) by (simp add: st)
    show "\<not> ball_falling s \<Longrightarrow>
      simulation_complete s \<and> balls_in_flight s = [] \<and> n_balls s \<le> balls_dropped s"
      using assms(2) by (simp add: st)
  qed
qed

lemma start_animation_inv:
  assumes "start_animation u s0 = Inr s1"
  shows "same_config s0 s1" "tally_ok s1" "cap_ok s1" "ball_falling s1" "\<not> paused s1"
    "bins_count s1 = replicate (nat (n_rows s0 + 1)) 0"
    "ball_paths s1 = ball_paths (generate_ball_paths u s0)"
    "1 \<le> n_rows s0 \<Longrightarrow> run_inv s1"
proof -
  have rows: "0 \<le> n_rows s0" by (rule start_animation_rows [OF assms])
  obtain t where st: "start_animation u s0 = Inr (start_next_balls (generate_ball_paths u t))"
    and fr: "fresh_run s0 t"
    using start_animation_ok [OF rows] by blast
  let ?g = "generate_ball_paths u t"
  have s1: "s1 = start_next_balls ?g" using assms st by simp
  note g = fresh_run_generate [OF fr, of u]
  note f = fresh_run_facts [OF g(1)]
  note a = admittedD [OF start_next_balls_admitted [of ?g], folded s1]
  have gf: "same_config s0 ?g" "ball_falling ?g" "\<not> paused ?g"
    "bins_count ?g = replicate (nat (n_rows s0 + 1)) 0"
    using g(1) by (simp_all add: fresh_run_def)
  show "same_config s0 s1"
    using gf(1) a(1) by (simp add: same_config_def same_run_def)
  show "tally_ok s1" by (rule tally_ok_same_tally [OF a(2) f(1)])
  show "cap_ok s1" by (rule a(5) [OF f(2)])
  show "ball_falling s1" "\<not> paused s1" "bins_count s1 = replicate (nat (n_rows s0 + 1)) 0"
    using a(2) gf by (simp_all add: same_tally_def)
  show "ball_paths s1 = ball_paths (generate_ball_paths u s0)"
    using a(1) g(2) by (simp add: same_run_def)
  show "run_inv s1" if "1 \<le> n_rows s0"
  proof -
    have "n_rows t = n_rows s0" "length (bins_count t) = nat (n_rows s0 + 1)"
      using fr by (simp_all add: fresh_run_def same_config_def)
    then have "paths_ok ?g" using that paths_ok_generate [of t u] by simp
    then have "run_inv ?g" by (rule f(3))
    then show ?thesis
      unfolding s1 using gf(2) start_next_balls_admitted by (rule admitted_run_inv)
  qed
qed

lemma pause_click_keeps:
  "same_run s (pause_click s)" "tally_ok (pause_click s) = tally_ok s"
  "cap_ok (pause_click s) = cap_ok s" "run_inv (pause_click s) = run_inv s"
  by (simp_all add: pause_click_def same_run_def tally_ok_def cap_ok_def run_inv_def
      paths_ok_def ball_ok_def)

lemma run_inputs_partial:
  assumes "run_inputs ins s = Inr s'"
  shows "same_run s s' \<and> (tally_ok s \<longrightarrow> tally_ok s') \<and> (cap_ok s \<longrightarrow> cap_ok s')"
  using assms
proof (induction ins arbitrary: s)
  case Nil
  then show ?case by simp
next
  case (Cons i ins)
  show ?case
  proof (cases i)
    case Tick
    with Cons.prems obtain s1 where u: "update_animation s = Inr s1"
      and r: "run_inputs ins s1 = Inr s'"
      by (auto split: sum.splits)
    from update_animation_partial [OF u] Cons.IH [OF r] show ?thesis
      by (blast intro: same_run_trans)
  next
    case Pause
    with Cons.prems have r: "run_inputs ins (pause_click s) = Inr s'" by simp
    from Cons.IH [OF r] pause_click_keeps [of s] show ?thesis
      by (blast intro: same_run_trans)
  qed
qed

lemma run_inputs_total:
  assumes "run_inv s"
  shows "\<exists>s'. run_inputs ins s = Inr s' \<and> run_inv s'"
  using assms
proof (induction ins arbitrary: s)
  case Nil
  then show ?case by simp
next
  case (Cons i ins)
  show ?case
  proof (cases i)
    case Tick
    obtain s1 where u: "update_animation s = Inr s1" and i1: "run_inv s1"
      using update_animation_total [OF Cons.prems] by blast
    from Cons.IH [OF i1] u Tick show ?thesis by simp
  next
    case Pause
    have "run_inv (pause_click s)" using Cons.prems by (simp add: pause_click_keeps)
    from Cons.IH [OF this] Pause show ?thesis by simp
  qed
qed

subsection \<open>Runs\<close>

text \<open>A run is \<^verbatim>\<open>start_animation\<close> followed by any sequence of ticks and pause
  toggles. The states \<open>lastball\<close> and \<open>lastball100\<close> are states of the kind a run passes
  through one tick before it completes.\<close>

lemmas tick_defs = update_animation_def admission_step_def finish_tick_def Let_def
  advance_ball_def effective_speed_def distance_sq_def clamp_position_inside float_defs
  final_position_of_def py_index_def record_outcome_def remove_balls_def pop_def
  plot_update_interval_def

lemma lastball_tick: "update_animation lastball = Inr finished"
  by (simp add: tick_defs lastball_def finished_def midrun_def)

lemma lastball100_tick: "update_animation lastball100 = Inr finished100"
  by (simp add: tick_defs lastball100_def finished100_def nth_append)

lemma run_inv_lastball: "run_inv lastball"
  by (simp add: run_inv_def paths_ok_def ball_ok_def tally_ok_def lastball_def midrun_def)

lemma run_inv_lastball100: "run_inv lastball100"
  by (simp add: run_inv_def paths_ok_def ball_ok_def tally_ok_def lastball100_def)

lemma in_slider_ranges_lastball100: "in_slider_ranges lastball100"
  by (simp add: in_slider_ranges_def lastball100_def)


lemma run_Inr:
  "run u s0 ins = Inr s \<longleftrightarrow> (\<exists>s1. start_animation u s0 = Inr s1 \<and> run_inputs ins s1 = Inr s)"
  by (auto simp: run_def split: sum.splits)

lemma run_partial:
  assumes "run u s0 ins = Inr s"
  shows "same_config s0 s" "tally_ok s" "cap_ok s"
proof -
  from assms obtain s1 where st: "start_animation u s0 = Inr s1" and r: "run_inputs ins s1 = Inr s"
    by (auto simp: run_Inr)
  note i = start_animation_inv [OF st] and p = run_inputs_partial [OF r]
  show "same_config s0 s" using i(1) p by (simp add: same_config_def same_run_def)
  show "tally_ok s" "cap_ok s" using i(2,3) p by blast+
qed

lemma run_total:
  assumes "1 \<le> n_rows s0"
  shows "\<exists>s. run u s0 ins = Inr s \<and> run_inv s"
proof -
  obtain t where "start_animation u s0 = Inr (start_next_balls (generate_ball_paths u t))"
    using start_animation_ok [of s0 u] assms by auto
  then obtain s1 where st: "start_animation u s0 = Inr s1" by blast
  have "run_inv s1" by (rule start_animation_inv(8) [OF st assms])
  then obtain s where "run_inputs ins s1 = Inr s" "run_inv s"
    using run_inputs_total by blast
  then show ?thesis using st by (auto simp: run_Inr)
qed

lemma run_inv_complete:
  assumes "run_inv t" "simulation_complete t"
  shows "balls_in_flight t = []" "n_balls t \<le> balls_dropped t"
    "0 \<le> n_balls t \<Longrightarrow> balls_completed t = n_balls t"
proof -
  note inv = run_invD [OF assms(1)]
  have nf: "\<not> ball_falling t" using inv(8) assms(2) by blast
  from inv(9) [OF nf] show e: "balls_in_flight t = []" and d: "n_balls t \<le> balls_dropped t"
    by simp_all
  show "balls_completed t = n_balls t" if "0 \<le> n_balls t"
    using inv(4,6) e d that by auto
qed

text \<open>
  C2. In every state of a run the bin counts add up to \<^verbatim>\<open>balls_completed\<close>, and they
  still do after a stop. A run on at least one row never raises, and when it is complete
  (\<^verbatim>\<open>simulation_complete\<close>: all balls dropped, none in flight) the bin counts add up
  to \<^verbatim>\<open>n_balls\<close>. The last part is also stated for one tick from any state that
  satisfies the invariant of a run. That every final path value is a valid bin index
  need not be assumed: it holds for the paths \<^verbatim>\<open>generate_ball_paths\<close> produces.
\<close>

theorem histogram_accounting:
  "(run u s0 ins = Inr s \<longrightarrow>
      sum_list (bins_count s) = balls_completed s \<and>
      sum_list (bins_count (stop_click s)) = balls_completed (stop_click s)) \<and>
   (1 \<le> n_rows s0 \<and> 0 \<le> n_balls s0 \<longrightarrow>
      (\<exists>s. run u s0 ins = Inr s \<and>
           (simulation_complete s \<longrightarrow>
              sum_list (bins_count s) = n_balls s0 \<and> balls_in_flight s = [] \<and>
              n_balls s0 \<le> balls_dropped s))) \<and>
   (run_inv t \<longrightarrow>
      (\<exists>t'. update_animation t = Inr t' \<and> run_inv t' \<and>
            sum_list (bins_count t') = balls_completed t' \<and>
            (simulation_complete t' \<and> 0 \<le> n_balls t' \<longrightarrow>
               sum_list (bins_count t') = n_balls t' \<and> balls_in_flight t' = [])))"
proof -
  have 1: "sum_list (bins_count s) = balls_completed s \<and>
      sum_list (bins_count (stop_click s)) = balls_completed (stop_click s)"
    if "run u s0 ins = Inr s"
    using run_partial(2) [OF that] by (simp add: tally_ok_def stop_click_def)
  have 2: "\<exists>s. run u s0 ins = Inr s \<and>
           (simulation_complete s \<longrightarrow>
              sum_list (bins_count s) = n_balls s0 \<and> balls_in_flight s = [] \<and>
              n_balls s0 \<le> balls_dropped s)"
    if h: "1 \<le> n_rows s0 \<and> 0 \<le> n_balls s0"
  proof -
    obtain s where r: "run u s0 ins = Inr s" and i: "run_inv s"
      using run_total h by blast
    have n: "n_balls s = n_balls s0"
      using run_partial(1) [OF r] by (simp add: same_config_def)
    have "sum_list (bins_count s) = balls_completed s"
      using run_invD(3) [OF i] by (simp add: tally_ok_def)
    then have "sum_list (bins_count s) = n_balls s0 \<and> balls_in_flight s = [] \<and>
        n_balls s0 \<le> balls_dropped s" if "simulation_complete s"
      using run_inv_complete [OF i that] n h by simp
    then show ?thesis using r by blast
  qed
  have 3: "\<exists>t'. update_animation t = Inr t' \<and> run_inv t' \<and>
            sum_list (bins_count t') = balls_completed t' \<and>
            (simulation_complete t' \<and> 0 \<le> n_balls t' \<longrightarrow>
               sum_list (bins_count t') = n_balls t' \<and> balls_in_flight t' = [])"
    if h: "run_inv t"
  proof -
    obtain t' where u: "update_animation t = Inr t'" and i: "run_inv t'"
      using update_animation_total [OF h] by blast
    have "sum_list (bins_count t') = balls_completed t'"
      using run_invD(3) [OF i] by (simp add: tally_ok_def)
    then show ?thesis
      using u i run_inv_complete [OF i] by auto
  qed
  from 1 2 3 show ?thesis by blast
qed

theorem histogram_accounting_witness:
  "run demo_u demo [Tick] = Inr midrun \<and>
   sum_list (bins_count midrun) = balls_completed midrun \<and>
   run_inv lastball \<and> update_animation lastball = Inr finished \<and>
   simulation_complete finished \<and> 0 \<le> n_balls finished \<and>
   sum_list (bins_count finished) = n_balls finished \<and> n_balls finished = 2"
proof -
  have f: "simulation_complete finished" "0 \<le> n_balls finished" "n_balls finished = 2"
    by (simp_all add: finished_def lastball_def midrun_def)
  show ?thesis
    using histogram_accounting [of demo_u demo "[Tick]" midrun lastball]
      demo_first_tick run_inv_lastball lastball_tick f
    by auto
qed

text \<open>
  C3. In every state of a run the number of balls in flight is at most
  \<^verbatim>\<open>max_simultaneous_balls\<close> (for any cap that is not negative), and the cap does not
  change during the run. \<^verbatim>\<open>start_next_balls\<close> does nothing unless the number in flight
  is strictly below the cap and a ball remains to be dropped; otherwise it admits one
  ball and goes on; it never exceeds the cap.
\<close>

theorem concurrency_cap:
  "(0 \<le> max_simultaneous_balls s0 \<and> run u s0 ins = Inr s \<longrightarrow>
      int (length (balls_in_flight s)) \<le> max_simultaneous_balls s0 \<and>
      max_simultaneous_balls s = max_simultaneous_balls s0) \<and>
   (1 \<le> n_rows s0 \<longrightarrow> (\<exists>s. run u s0 ins = Inr s)) \<and>
   (\<not> (int (length (balls_in_flight t)) < max_simultaneous_balls t \<and>
        balls_dropped t < n_balls t) \<longrightarrow>
      start_next_balls t = t) \<and>
   (int (length (balls_in_flight t)) < max_simultaneous_balls t \<and> balls_dropped t < n_balls t \<longrightarrow>
      start_next_balls t = start_next_balls (admit_ball t) \<and>
      length (balls_in_flight (admit_ball t)) = Suc (length (balls_in_flight t))) \<and>
   (0 \<le> max_simultaneous_balls t \<and>
    int (length (balls_in_flight t)) \<le> max_simultaneous_balls t \<longrightarrow>
      int (length (balls_in_flight (start_next_balls t))) \<le> max_simultaneous_balls t)"
proof -
  have 1: "int (length (balls_in_flight s)) \<le> max_simultaneous_balls s0 \<and>
      max_simultaneous_balls s = max_simultaneous_balls s0"
    if "0 \<le> max_simultaneous_balls s0 \<and> run u s0 ins = Inr s"
    using that run_partial(1,3) [of u s0 ins s] by (simp add: cap_ok_def same_config_def)
  have 2: "\<exists>s. run u s0 ins = Inr s" if "1 \<le> n_rows s0"
    using run_total [OF that] by blast
  have 3: "start_next_balls t = start_next_balls (admit_ball t) \<and>
      length (balls_in_flight (admit_ball t)) = Suc (length (balls_in_flight t))"
    if h: "int (length (balls_in_flight t)) < max_simultaneous_balls t \<and> balls_dropped t < n_balls t"
  proof -
    have "start_next_balls t = start_next_balls (admit_ball t)"
      using h by (subst start_next_balls.simps) simp
    moreover obtain b where "balls_in_flight (admit_ball t) = balls_in_flight t @ [b]"
      using admit_ball_flight by blast
    ultimately show ?thesis by simp
  qed
  have 4: "int (length (balls_in_flight (start_next_balls t))) \<le> max_simultaneous_balls t"
    if "0 \<le> max_simultaneous_balls t \<and>
        int (length (balls_in_flight t)) \<le> max_simultaneous_balls t"
  proof -
    note a = admittedD [OF start_next_balls_admitted [of t]]
    have "cap_ok t" using that by (simp add: cap_ok_def)
    from a(5) [OF this] a(1) that show ?thesis
      by (simp add: cap_ok_def same_run_def)
  qed
  from 1 2 3 4 start_next_balls_idle [of t] show ?thesis by blast
qed

theorem concurrency_cap_witness:
  "0 \<le> max_simultaneous_balls demo \<and> run demo_u demo [Tick] = Inr midrun \<and>
   int (length (balls_in_flight midrun)) \<le> max_simultaneous_balls demo \<and>
   max_simultaneous_balls demo = 1 \<and> start_next_balls midrun = midrun"
proof -
  have d: "0 \<le> max_simultaneous_balls demo" "max_simultaneous_balls demo = 1"
    by (simp_all add: demo_def)
  have m: "\<not> (int (length (balls_in_flight midrun)) < max_simultaneous_balls midrun \<and>
        balls_dropped midrun < n_balls midrun)"
    by (simp add: midrun_def)
  show ?thesis
    using concurrency_cap [of demo demo_u "[Tick]" midrun midrun] demo_first_tick d m
    by simp
qed

lemma run_inv_final_stats:
  assumes "run_inv t" "simulation_complete t" "1 \<le> n_balls t" "n_balls t mod 5 = 0"
  shows "int (length (positions t)) = n_balls t"
    "observed_mean t = np_mean (positions t)" "observed_std t = np_std (positions t)"
proof -
  have c: "balls_completed t = n_balls t"
    using run_inv_complete(3) [OF assms(1,2)] assms(3) by simp
  note tl = run_invD(3) [OF assms(1), unfolded tally_ok_def]
  show "int (length (positions t)) = n_balls t" using tl c by simp
  show "observed_mean t = np_mean (positions t)" "observed_std t = np_std (positions t)"
    using tl c assms(3,4) by simp_all
qed

text \<open>
  C8. The program only ever has a configuration within the slider ranges:
  \<^verbatim>\<open>__init__\<close> and \<^verbatim>\<open>reset_parameters\<close> set one and slider input stays within them
  (shown with C9). A run from such a configuration never raises, and when it is complete
  it has recorded \<^verbatim>\<open>n_balls\<close> outcomes and its observed mean and standard deviation are
  \<^verbatim>\<open>np.mean\<close> and \<^verbatim>\<open>np.std\<close> of the full outcome list. The same holds for one tick
  from any state of a run that satisfies the invariant. The reason is stated last: the
  statistics are refreshed whenever the completed count is a multiple of 5, and the ball
  count, a multiple of 50, is one.
\<close>

theorem final_statistics:
  "(in_slider_ranges s0 \<longrightarrow>
      (\<exists>s. run u s0 ins = Inr s \<and>
           (simulation_complete s \<longrightarrow>
              int (length (positions s)) = n_balls s0 \<and>
              observed_mean s = np_mean (positions s) \<and>
              observed_std s = np_std (positions s)))) \<and>
   (run_inv t \<and> in_slider_ranges t \<longrightarrow>
      (\<exists>t'. update_animation t = Inr t' \<and> run_inv t' \<and>
            (simulation_complete t' \<longrightarrow>
               int (length (positions t')) = n_balls t \<and>
               observed_mean t' = np_mean (positions t') \<and>
               observed_std t' = np_std (positions t')))) \<and>
   (1 \<le> n_rows s0 \<and> 1 \<le> n_balls s0 \<and> n_balls s0 mod 5 = 0 \<longrightarrow>
      (\<exists>s. run u s0 ins = Inr s \<and>
           (simulation_complete s \<longrightarrow>
              int (length (positions s)) = n_balls s0 \<and>
              observed_mean s = np_mean (positions s) \<and>
              observed_std s = np_std (positions s))))"
proof -
  have m: "1 \<le> n_rows x \<and> 1 \<le> n_balls x \<and> n_balls x mod 5 = 0" if h: "in_slider_ranges x" for x
  proof -
    from h have "n_balls x mod 50 = 0" "100 \<le> n_balls x" "5 \<le> n_rows x"
      by (simp_all add: in_slider_ranges_def)
    then show ?thesis by presburger
  qed
  have a: "\<exists>s. run u s0 ins = Inr s \<and>
           (simulation_complete s \<longrightarrow>
              int (length (positions s)) = n_balls s0 \<and>
              observed_mean s = np_mean (positions s) \<and>
              observed_std s = np_std (positions s))"
    if h: "1 \<le> n_rows s0 \<and> 1 \<le> n_balls s0 \<and> n_balls s0 mod 5 = 0"
  proof -
    obtain s where r: "run u s0 ins = Inr s" and i: "run_inv s"
      using run_total h by blast
    have n: "n_balls s = n_balls s0"
      using run_partial(1) [OF r] by (simp add: same_config_def)
    show ?thesis
      using r run_inv_final_stats [OF i] h n by auto
  qed
  have b: "\<exists>t'. update_animation t = Inr t' \<and> run_inv t' \<and>
            (simulation_complete t' \<longrightarrow>
               int (length (positions t')) = n_balls t \<and>
               observed_mean t' = np_mean (positions t') \<and>
               observed_std t' = np_std (positions t'))"
    if h: "run_inv t \<and> in_slider_ranges t"
  proof -
    obtain t' where u: "update_animation t = Inr t'" and i: "run_inv t'"
      using update_animation_total h by blast
    have n: "n_balls t' = n_balls t"
      using update_animation_partial [OF u] by (simp add: same_run_def)
    show ?thesis
      using u i run_inv_final_stats [OF i] m [of t] h n by auto
  qed
  from a b m [of s0] show ?thesis by blast
qed

theorem final_statistics_witness:
  "in_slider_ranges initial_fields \<and>
   (\<exists>s. run demo_u initial_fields [Tick, Tick] = Inr s) \<and>
   in_slider_ranges lastball100 \<and> run_inv lastball100 \<and>
   update_animation lastball100 = Inr finished100 \<and> simulation_complete finished100 \<and>
   n_balls lastball100 = 100 \<and> length (positions finished100) = 100 \<and>
   observed_mean finished100 = np_mean (positions finished100) \<and>
   observed_std finished100 = np_std (positions finished100) \<and>
   np_mean (positions finished100) = 21 / 5"
proof -
  have i: "in_slider_ranges initial_fields"
    by (simp add: in_slider_ranges_def initial_fields_def)
  have f: "simulation_complete finished100"
    "positions finished100 = replicate 40 6 @ replicate 59 3 @ [3]"
    by (simp_all add: finished100_def)
  have n: "n_balls lastball100 = 100" by (simp add: lastball100_def)
  have l: "length (positions finished100) = 100" by (simp add: f(2))
  have m: "np_mean (positions finished100) = 21 / 5"
    by (simp add: f(2) np_mean_def sum_list_replicate)
  note w = final_statistics [of initial_fields demo_u "[Tick, Tick]" lastball100]
  have r: "\<exists>s. run demo_u initial_fields [Tick, Tick] = Inr s"
    using w i by blast
  have "\<exists>t'. update_animation lastball100 = Inr t' \<and> run_inv t' \<and>
            (simulation_complete t' \<longrightarrow>
               int (length (positions t')) = n_balls lastball100 \<and>
               observed_mean t' = np_mean (positions t') \<and>
               observed_std t' = np_std (positions t'))"
    using w run_inv_lastball100 in_slider_ranges_lastball100 by blast
  then have "observed_mean finished100 = np_mean (positions finished100) \<and>
      observed_std finished100 = np_std (positions finished100)"
    using lastball100_tick f(1) by auto
  then show ?thesis
    using i r in_slider_ranges_lastball100 run_inv_lastball100 lastball100_tick f(1) n l m
    by blast
qed

subsection \<open>Configuration edits\<close>

lemma init_ok: "\<exists>s'. init = Inr s' \<and> in_slider_ranges s'"
proof -
  let ?s = "calculate_theoretical_values initial_fields"
  have "int (length (bins_count ?s)) = n_rows ?s + 1" "0 \<le> n_rows ?s"
    by (simp_all add: initial_fields_def calculate_theoretical_values_def)
  then obtain pegs bins where
    "precalculate_positions ?s = Inr (?s\<lparr>peg_positions := pegs, bin_positions := bins\<rparr>)"
    using precalculate_positions_fit [of ?s] by blast
  moreover have "in_slider_ranges ?s"
    by (simp add: in_slider_ranges_def initial_fields_def calculate_theoretical_values_def)
  ultimately show ?thesis
    by (simp add: init_def in_slider_ranges_def)
qed

text \<open>
  C9, as the code has it. There is no validation error anywhere in the program.
  \<^verbatim>\<open>handle_slider_input\<close> never raises; it clamps the value it reads into the range
  of its slider, so from a configuration within the slider ranges it yields one within
  the slider ranges, and such a configuration is valid (at least one row, one ball and
  one ball in flight, a probability between 0 and 1). \<^verbatim>\<open>__init__\<close> and
  \<^verbatim>\<open>reset_parameters\<close> set such a configuration.
\<close>

theorem slider_input_stays_valid:
  "(\<exists>s' r. handle_slider_input mouse_pos s = Inr (s', r) \<and>
           (in_slider_ranges s \<longrightarrow> in_slider_ranges s' \<and> valid_config s')) \<and>
   (\<exists>s'. reset_parameters s = Inr s' \<and> in_slider_ranges s' \<and> valid_config s') \<and>
   (\<exists>s'. init = Inr s' \<and> in_slider_ranges s' \<and> valid_config s')"
  using handle_slider_input_in_range [of mouse_pos s] reset_parameters_ok [of s] init_ok
    in_slider_ranges_valid
  by blast

theorem slider_input_stays_valid_witness:
  "in_slider_ranges initial_fields \<and>
   (\<exists>s' r. handle_slider_input (40, 200) initial_fields = Inr (s', r) \<and>
           in_slider_ranges s' \<and> valid_config s')"
proof -
  have "in_slider_ranges initial_fields"
    by (simp add: in_slider_ranges_def initial_fields_def)
  then show ?thesis
    using slider_input_stays_valid [of "(40, 200)" initial_fields] by blast
qed

text \<open>
  \<^verbatim>\<open>start_animation\<close> checks nothing: given no balls and probability 2 it starts the
  run, with these values, and reports no error.
\<close>

theorem no_validation_counterexample:
  "\<not> valid_config (demo\<lparr>n_balls := 0, probability := 2\<rparr>) \<and>
   map_sum id (\<lambda>s. (ball_falling s, n_balls s, probability s))
     (start_animation demo_u (demo\<lparr>n_balls := 0, probability := 2\<rparr>)) = Inr (True, 0, 2)"
proof -
  let ?s = "demo\<lparr>n_balls := 0, probability := 2\<rparr>"
  have r: "0 \<le> n_rows ?s" by (simp add: demo_def initial_fields_def)
  obtain t where "start_animation demo_u ?s =
      Inr (start_next_balls (generate_ball_paths demo_u t))"
    using start_animation_ok [OF r] by blast
  then obtain s1 where st: "start_animation demo_u ?s = Inr s1" by blast
  note i = start_animation_inv [OF st]
  have "n_balls s1 = 0" "probability s1 = 2"
    using i(1) by (simp_all add: same_config_def)
  moreover have "\<not> valid_config ?s" by (simp add: valid_config_def)
  ultimately show ?thesis using st i(4) by simp
qed

lemma slider_edit_rows_flags:
  "\<exists>s'. slider_edit ''rows'' ratio s = Inr s' \<and>
        n_rows s' = max 5 (min 18 (py_round (5 + ratio * 13))) \<and>
        bins_count s' = take (nat (n_rows s' + 1)) (bins_count s) @
                        replicate (nat (n_rows s' + 1) - length (bins_count s)) 0 \<and>
        ball_falling s' = ball_falling s \<and> stopped s' = stopped s"
proof -
  define v where "v = max 5 (min 18 (py_round (5 + ratio * 13)))"
  define s0 where "s0 = s\<lparr>slider_rows := v, n_rows := v\<rparr>"
  have v: "5 \<le> v" by (simp add: v_def)
  have n0: "n_rows s0 = v" by (simp add: s0_def)
  define s1 where "s1 = s0\<lparr>bins_count := take (nat (v + 1)) (bins_count s0) @
                    replicate (nat (v + 1) - length (bins_count s0)) 0\<rparr>"
  have u: "update_bins_array_size s0 = Inr s1"
    using update_bins_array_size_eq [of s0] v by (simp add: n0 s1_def)
  have len: "int (length (bins_count s1)) = n_rows s1 + 1" and n1: "n_rows s1 = v"
    using v by (auto simp: s1_def n0)
  obtain pegs bins where p: "precalculate_positions s1 =
      Inr (s1\<lparr>peg_positions := pegs, bin_positions := bins\<rparr>)"
    using precalculate_positions_fit [OF len] v n1 by auto
  have "slider_edit ''rows'' ratio s =
      Inr (calculate_theoretical_values (s1\<lparr>peg_positions := pegs, bin_positions := bins\<rparr>))"
    using u p by (simp add: slider_edit_def Let_def v_def [symmetric] s0_def [symmetric])
  then show ?thesis
    by (simp add: s1_def s0_def v_def calculate_theoretical_values_def)
qed

lemma rows_edit_result:
  assumes "\<not> (ball_falling s \<and> \<not> stopped s)" "40 \<le> mx" "mx \<le> 240"
  shows "\<exists>s'. handle_slider_input (mx, 200) s = Inr (s', Some ''rows'') \<and>
        n_rows s' = max 5 (min 18 (py_round (5 + real_of_int (mx - 40) / 200 * 13))) \<and>
        bins_count s' = take (nat (n_rows s' + 1)) (bins_count s) @
                        replicate (nat (n_rows s' + 1) - length (bins_count s)) 0 \<and>
        ball_falling s' = ball_falling s \<and> stopped s' = stopped s"
proof -
  obtain s' where e: "slider_edit ''rows'' (real_of_int (mx - 40) / 200) s = Inr s'" and
    r: "n_rows s' = max 5 (min 18 (py_round (5 + real_of_int (mx - 40) / 200 * 13)))"
       "bins_count s' = take (nat (n_rows s' + 1)) (bins_count s) @
                        replicate (nat (n_rows s' + 1) - length (bins_count s)) 0"
       "ball_falling s' = ball_falling s" "stopped s' = stopped s"
    using slider_edit_rows_flags [of "real_of_int (mx - 40) / 200" s] by blast
  have mem: "(''rows'', 40, 190, 200, 20) \<in> set sliders" by (simp add: sliders_def)
  have "handle_slider_input (mx, 200) s = Inr (s', Some ''rows'')"
    using slider_hit_edit [OF mem assms(2,3) _ _ assms(1) e] by simp
  then show ?thesis using r by blast
qed

text \<open>
  C10, as the code has it. \<^verbatim>\<open>update_bins_array_size\<close> gives the histogram
  \<open>n_rows + 1\<close> bins, keeps the counts of the bins that remain and sets the new bins to
  zero; the counts of the bins beyond the new size are discarded. A row edit outside a
  run does the same, so after a completed run the counts of that run stay in the bins
  that remain. \<^verbatim>\<open>start_animation\<close> and \<^verbatim>\<open>reset_parameters\<close> set every count to zero.
\<close>

theorem rows_edit_keeps_counts:
  "(0 \<le> n_rows s + 1 \<longrightarrow>
      (\<exists>s'. update_bins_array_size s = Inr s' \<and>
            length (bins_count s') = nat (n_rows s + 1) \<and>
            (\<forall>i < min (length (bins_count s)) (nat (n_rows s + 1)).
               bins_count s' ! i = bins_count s ! i) \<and>
            (\<forall>i. length (bins_count s) \<le> i \<and> i < nat (n_rows s + 1) \<longrightarrow>
               bins_count s' ! i = 0))) \<and>
   (\<not> (ball_falling s \<and> \<not> stopped s) \<and> 40 \<le> mx \<and> mx \<le> 240 \<and> 175 \<le> my \<and> my \<le> 225 \<longrightarrow>
      (\<exists>s'. handle_slider_input (mx, my) s = Inr (s', Some ''rows'') \<and>
            length (bins_count s') = nat (n_rows s' + 1) \<and>
            (\<forall>i < min (length (bins_count s)) (nat (n_rows s' + 1)).
               bins_count s' ! i = bins_count s ! i) \<and>
            (\<forall>i. length (bins_count s) \<le> i \<and> i < nat (n_rows s' + 1) \<longrightarrow>
               bins_count s' ! i = 0) \<and>
            bins_count s' = take (nat (n_rows s' + 1)) (bins_count s) @
                            replicate (nat (n_rows s' + 1) - length (bins_count s)) 0)) \<and>
   (\<forall>s'. start_animation u s = Inr s' \<longrightarrow> bins_count s' = replicate (nat (n_rows s + 1)) 0) \<and>
   (\<exists>s'. reset_parameters s = Inr s' \<and> bins_count s' = replicate 13 0)"
proof -
  have resized: "length (take k old @ replicate (k - length old) (0::int)) = k \<and>
      (\<forall>i < min (length old) k. (take k old @ replicate (k - length old) 0) ! i = old ! i) \<and>
      (\<forall>i. length old \<le> i \<and> i < k \<longrightarrow> (take k old @ replicate (k - length old) 0) ! i = 0)"
    for k and old :: "int list"
    by (auto simp: nth_append min_def)
  have 1: "\<exists>s'. update_bins_array_size s = Inr s' \<and>
            length (bins_count s') = nat (n_rows s + 1) \<and>
            (\<forall>i < min (length (bins_count s)) (nat (n_rows s + 1)).
               bins_count s' ! i = bins_count s ! i) \<and>
            (\<forall>i. length (bins_count s) \<le> i \<and> i < nat (n_rows s + 1) \<longrightarrow>
               bins_count s' ! i = 0)"
    if h: "0 \<le> n_rows s + 1"
    unfolding update_bins_array_size_eq [OF h]
    using resized [of "nat (n_rows s + 1)" "bins_count s"] by simp
  have 2: "\<exists>s'. handle_slider_input (mx, my) s = Inr (s', Some ''rows'') \<and>
            length (bins_count s') = nat (n_rows s' + 1) \<and>
            (\<forall>i < min (length (bins_count s)) (nat (n_rows s' + 1)).
               bins_count s' ! i = bins_count s ! i) \<and>
            (\<forall>i. length (bins_count s) \<le> i \<and> i < nat (n_rows s' + 1) \<longrightarrow>
               bins_count s' ! i = 0) \<and>
            bins_count s' = take (nat (n_rows s' + 1)) (bins_count s) @
                            replicate (nat (n_rows s' + 1) - length (bins_count s)) 0"
    if h: "\<not> (ball_falling s \<and> \<not> stopped s) \<and> 40 \<le> mx \<and> mx \<le> 240 \<and> 175 \<le> my \<and> my \<le> 225"
  proof -
    let ?r = "real_of_int (mx - 40) / 200"
    obtain s' where e: "slider_edit ''rows'' ?r s = Inr s'" and
      b: "bins_count s' = take (nat (n_rows s' + 1)) (bins_count s) @
                        replicate (nat (n_rows s' + 1) - length (bins_count s)) 0"
      using slider_edit_rows [of ?r s] by blast
    have mem: "(''rows'', 40, 190, 200, 20) \<in> set sliders" by (simp add: sliders_def)
    have "handle_slider_input (mx, my) s = Inr (s', Some ''rows'')"
      using slider_hit_edit [OF mem _ _ _ _ _ e] h by simp
    then show ?thesis
      using resized [of "nat (n_rows s' + 1)" "bins_count s"] b by simp
  qed
  have 3: "bins_count s' = replicate (nat (n_rows s + 1)) 0" if "start_animation u s = Inr s'" for s'
    by (rule start_animation_inv(6) [OF that])
  from 1 2 3 reset_parameters_ok [of s] show ?thesis by blast
qed

theorem rows_edit_keeps_counts_witness:
  "\<not> ball_falling finished \<and> bins_count finished = [0, 1, 1, 0] \<and>
   (\<exists>s'. handle_slider_input (40, 200) finished = Inr (s', Some ''rows'') \<and>
         length (bins_count s') = nat (n_rows s' + 1) \<and>
         bins_count s' ! 1 = 1 \<and> bins_count s' ! 2 = 1)"
proof -
  have f: "\<not> ball_falling finished" "bins_count finished = [0, 1, 1, 0]"
    by (simp_all add: finished_def)
  have h: "\<not> (ball_falling finished \<and> \<not> stopped finished) \<and>
      (40::int) \<le> 40 \<and> (40::int) \<le> 240 \<and> (175::int) \<le> 200 \<and> (200::int) \<le> 225"
    using f(1) by simp
  have "\<exists>s'. handle_slider_input (40, 200) finished = Inr (s', Some ''rows'') \<and>
            length (bins_count s') = nat (n_rows s' + 1) \<and>
            (\<forall>i < min (length (bins_count finished)) (nat (n_rows s' + 1)).
               bins_count s' ! i = bins_count finished ! i)"
    using rows_edit_keeps_counts [of finished 40 200 demo_u] h by blast
  then obtain s' where s': "handle_slider_input (40, 200) finished = Inr (s', Some ''rows'')"
    "length (bins_count s') = nat (n_rows s' + 1)"
    "\<forall>i < min (length (bins_count finished)) (nat (n_rows s' + 1)).
       bins_count s' ! i = bins_count finished ! i"
    by blast
  have "4 \<le> length (bins_count s')"
  proof -
    obtain t where t: "slider_edit ''rows'' (real_of_int (40 - 40) / 200) finished = Inr t"
      "n_rows t = max 5 (min 18 (py_round (5 + real_of_int (40 - 40) / 200 * 13)))"
      using slider_edit_rows [of "real_of_int (40 - 40) / 200" finished] by blast
    have mem: "(''rows'', 40, 190, 200, 20) \<in> set sliders" by (simp add: sliders_def)
    have "handle_slider_input (40, 200) finished = Inr (t, Some ''rows'')"
      using slider_hit_edit [OF mem _ _ _ _ _ t(1)] f(1) by simp
    then have "s' = t" using s'(1) by simp
    moreover have "5 \<le> n_rows t" unfolding t(2) by (rule clamp_bounds(1)) simp
    ultimately show ?thesis using s'(2) by simp
  qed
  then have "bins_count s' ! 1 = 1 \<and> bins_count s' ! 2 = 1"
    using s'(2,3) by (simp add: f(2))
  then show ?thesis using f s'(1,2) by blast
qed

text \<open>
  The claim as stated says that only start and reset set a count to zero. A row edit that
  shrinks the histogram discards the counts of the bins it removes. The run of 100 balls
  on 6 rows ends with 60 balls in bin 3 and 40 in bin 6. Two slider events on the row
  track, with no start and no reset, set the rows to 5 and back to 6: the first leaves
  the bins 0 to 5, the second brings bin 6 back with the count 0.
\<close>

theorem rows_edit_discards_counts_counterexample:
  "update_animation lastball100 = Inr finished100 \<and>
   simulation_complete finished100 \<and> n_rows finished100 = 6 \<and>
   bins_count finished100 = [0, 0, 0, 60, 0, 0, 40] \<and>
   map_sum id n_rows (slider_inputs [(40, 200)] finished100) = Inr 5 \<and>
   map_sum id bins_count (slider_inputs [(40, 200)] finished100) = Inr [0, 0, 0, 60, 0, 0] \<and>
   map_sum id n_rows (slider_inputs [(40, 200), (55, 200)] finished100) = Inr 6 \<and>
   map_sum id bins_count (slider_inputs [(40, 200), (55, 200)] finished100) =
     Inr [0, 0, 0, 60, 0, 0, 0]"
proof -
  have f: "simulation_complete finished100" "n_rows finished100 = 6"
    "bins_count finished100 = [0, 0, 0, 60, 0, 0, 40]"
    "\<not> (ball_falling finished100 \<and> \<not> stopped finished100)"
    by (simp_all add: finished100_def lastball100_def)
  obtain s1 where s1: "handle_slider_input (40, 200) finished100 = Inr (s1, Some ''rows'')"
    "n_rows s1 = max 5 (min 18 (py_round (5 + real_of_int (40 - 40) / 200 * 13)))"
    "bins_count s1 = take (nat (n_rows s1 + 1)) (bins_count finished100) @
                     replicate (nat (n_rows s1 + 1) - length (bins_count finished100)) 0"
    "ball_falling s1 = ball_falling finished100" "stopped s1 = stopped finished100"
    using rows_edit_result [OF f(4), of 40] by auto
  have n1: "n_rows s1 = 5" unfolding s1(2) by (simp add: py_round_def)
  have b1: "bins_count s1 = [0, 0, 0, 60, 0, 0]" unfolding s1(3) n1 f(3) by simp
  have g: "\<not> (ball_falling s1 \<and> \<not> stopped s1)" using f(4) s1(4,5) by simp
  obtain s2 where s2: "handle_slider_input (55, 200) s1 = Inr (s2, Some ''rows'')"
    "n_rows s2 = max 5 (min 18 (py_round (5 + real_of_int (55 - 40) / 200 * 13)))"
    "bins_count s2 = take (nat (n_rows s2 + 1)) (bins_count s1) @
                     replicate (nat (n_rows s2 + 1) - length (bins_count s1)) 0"
    using rows_edit_result [OF g, of 55] by auto
  have n2: "n_rows s2 = 6" unfolding s2(2) by (simp add: py_round_def)
  have b2: "bins_count s2 = [0, 0, 0, 60, 0, 0, 0]" unfolding s2(3) n2 b1 by simp
  have "slider_inputs [(40, 200)] finished100 = Inr s1"
    "slider_inputs [(40, 200), (55, 200)] finished100 = Inr s2"
    using s1(1) s2(1) by simp_all
  then show ?thesis
    using lastball100_tick f(1,2,3) n1 b1 n2 b2 by simp
qed

end
